theory Spec2Isabelle
  imports Main "HOL-Library.Word"
begin

section \<open>The pwru command: a shallow embedding of main.go\<close>

text \<open>
  The program is the single function \<open>main\<close> of \<open>main.go\<close>. It is sequential code that
  talks to the outside world (the kernel, the flag package, the eBPF library) at every
  step, so the embedding is a state-passing function over
  \<^item> an environment \<open>env\<close> that fixes what each external call answers in one run, and
  \<^item> a state that records the local variables of \<open>main\<close>, the stack of deferred calls
    and the trace of the external calls made so far, in program order.
  The two goroutines that wait on \<open>ctx.Done()\<close> run concurrently with \<open>main\<close>; they are
  visible here only through the environment: the answers of the polls of \<open>ctx.Done()\<close>
  and the error that \<open>rd.Read()\<close> returns once the reader has been closed.
\<close>

subsection \<open>Data\<close>

type_synonym byte = "8 word"

text \<open>Go errors, as far as the tests of \<open>main\<close> tell them apart
  (\<open>errors.Is(err, os.ErrNotExist)\<close>, \<open>perf.IsClosed(err)\<close>), and the two errors of
  \<open>io.ReadFull\<close> that \<open>binary.Read\<close> passes on.\<close>

datatype error = ErrNotExist | ErrClosed | EOF | ErrUnexpectedEOF | ErrOther string

definition errors_Is_ErrNotExist :: "error \<Rightarrow> bool" where
  "errors_Is_ErrNotExist err = (err = ErrNotExist)"

definition perf_IsClosed :: "error \<Rightarrow> bool" where
  "perf_IsClosed err = (err = ErrClosed)"

text \<open>\<open>pwru.Flags\<close>, with the fields of the literal at lines 41-52. The flag package hands
  out pointers to the parsed values; after \<open>flag.Parse()\<close> they are read only.\<close>

record Flags =
  FilterMark :: int
  FilterProto :: string
  FilterSrcIP :: string
  FilterDstIP :: string
  FilterSrcPort :: string
  FilterDstPort :: string
  OutputRelativeTS :: bool
  OutputMeta :: bool
  OutputTuple :: bool
  OutputSkb :: bool

text \<open>The command line, after the lexical work of the flag package: for every flag,
  whether it was given and with which value. (A value that does not parse makes
  \<open>flag.Parse()\<close> exit with status 2 before anything else happens.)\<close>

record cmdline =
  arg_filter_mark :: "int option"
  arg_filter_proto :: "string option"
  arg_filter_src_ip :: "string option"
  arg_filter_dst_ip :: "string option"
  arg_filter_src_port :: "string option"
  arg_filter_dst_port :: "string option"
  arg_output_relative_timestamp :: "bool option"
  arg_output_meta :: "bool option"
  arg_output_tuple :: "bool option"
  arg_output_skb :: "bool option"

text \<open>\<open>flag.Int(name, value, usage)\<close> and its siblings: the variable holds the default
  \<open>value\<close> unless the flag was given.\<close>

definition flag_Int :: "int option \<Rightarrow> int \<Rightarrow> int" where
  "flag_Int given dflt = (case given of None \<Rightarrow> dflt | Some v \<Rightarrow> v)"

definition flag_String :: "string option \<Rightarrow> string \<Rightarrow> string" where
  "flag_String given dflt = (case given of None \<Rightarrow> dflt | Some v \<Rightarrow> v)"

definition flag_Bool :: "bool option \<Rightarrow> bool \<Rightarrow> bool" where
  "flag_Bool given dflt = (case given of None \<Rightarrow> dflt | Some v \<Rightarrow> v)"

text \<open>Lines 41-53.\<close>

definition parse_flags :: "cmdline \<Rightarrow> Flags" where
  "parse_flags args =
     \<lparr> FilterMark = flag_Int (arg_filter_mark args) 0,
       FilterProto = flag_String (arg_filter_proto args) [],
       FilterSrcIP = flag_String (arg_filter_src_ip args) [],
       FilterDstIP = flag_String (arg_filter_dst_ip args) [],
       FilterSrcPort = flag_String (arg_filter_src_port args) [],
       FilterDstPort = flag_String (arg_filter_dst_port args) [],
       OutputRelativeTS = flag_Bool (arg_output_relative_timestamp args) False,
       OutputMeta = flag_Bool (arg_output_meta args) False,
       OutputTuple = flag_Bool (arg_output_tuple args) False,
       OutputSkb = flag_Bool (arg_output_skb args) False \<rparr>"

text \<open>The two generated object collections and their five kprobe programs. An
  \<open>*ebpf.Program\<close> is identified by the collection it was loaded from and its field.\<close>

datatype objset = KProbePWRUObjects | KProbePWRUWithoutOutputSKBObjects

datatype progfield = KprobeSkb1 | KprobeSkb2 | KprobeSkb3 | KprobeSkb4 | KprobeSkb5

type_synonym Program = "objset \<times> progfield"

record kprobes =
  kprobe1 :: Program
  kprobe2 :: Program
  kprobe3 :: Program
  kprobe4 :: Program
  kprobe5 :: Program

text \<open>Lines 90-94 and 104-108.\<close>

definition assign_kprobes :: "objset \<Rightarrow> kprobes" where
  "assign_kprobes objs =
     \<lparr> kprobe1 = (objs, KprobeSkb1), kprobe2 = (objs, KprobeSkb2),
       kprobe3 = (objs, KprobeSkb3), kprobe4 = (objs, KprobeSkb4),
       kprobe5 = (objs, KprobeSkb5) \<rparr>"

text \<open>A \<open>link.Link\<close> returned by \<open>link.Kprobe\<close>: an opaque handle.\<close>

type_synonym Link = nat

text \<open>\<open>perf.Record\<close>.\<close>

record perf_Record =
  CPU :: int
  RawSample :: "byte list"
  LostSamples :: "64 word"

text \<open>\<open>pwru.Event\<close> is declared outside \<open>main.go\<close>. It is a struct of fixed size, and
  \<open>binary.Read\<close> fills it from exactly that many bytes, field by field; an event is
  represented by those bytes. The size is a parameter of the environment.\<close>

type_synonym Event = "byte list"

text \<open>The fixed-layout record that the filter configurator writes into the
  configuration map, as bytes.\<close>

type_synonym FilterConfig = "byte list"

datatype rlimit = RLIMIT_NOFILE | RLIMIT_MEMLOCK

text \<open>The calls that \<open>main\<close> defers, in the order of the source: \<open>stop()\<close> (line 73),
  \<open>objs.Close()\<close> (lines 89, 103), \<open>kp.Close()\<close> (line 150), \<open>rd.Close()\<close> (line 160).\<close>

datatype deferred = Dstop | DobjsClose objset | DkpClose Link | DrdClose

datatype logmsg =
    FailedToSetRlimitNofile error
  | FailedToSetRlimitMemlock error
  | FailedToGetFuncs error
  | FailedToGetAddrs error
  | LoadingObjects error
  | FailedToSetFilterMap error
  | AttachingKprobes
  | OpeningKprobe string error
  | CreatingPerfEventReader error
  | ListeningForEvents
  | ReadingFromPerfEventReader error
  | DroppedSamples "64 word"
  | ParsingPerfEvent error

text \<open>The external calls of \<open>main\<close>, as they appear in the trace.\<close>

datatype effect =
    ESetrlimit rlimit
  | ENotifyContext
  | EGetFuncs
  | EGetAddrs
  | ELoadObjects objset
  | ECfgMapUpdate FilterConfig
  | ELog logmsg
  | EBarStartNew nat
  | EBarIncrement
  | EBarFinish
  | ECtxDone bool
  | EKprobe string Program
  | EPrintfAttached int
  | ENewReader
  | ENewOutput
  | EPrintHeader
  | ERead
  | EPrint Event
  | ERun deferred

text \<open>The environment of one run. \<open>GetFuncs\<close> answers with the catalog in the order in
  which \<open>range\<close> will visit it (Go leaves that order open; every order is an
  environment). \<open>ctx_Done n\<close> is what the \<open>n\<close>-th non-blocking poll of \<open>ctx.Done()\<close>
  observes. \<open>rd_Read\<close> is the sequence of results of \<open>rd.Read()\<close>; when it is used up the
  next call blocks for ever. Of \<open>GetAddrs\<close> only the error is kept: the address table goes
  to the renderer, which is not part of \<open>main.go\<close>.\<close>

record env =
  Setrlimit :: "rlimit \<Rightarrow> error option"
  GetFuncs :: "error + (string \<times> int) list"
  GetAddrs :: "(string \<times> int) list \<Rightarrow> error option"
  LoadObjects :: "objset \<Rightarrow> error option"
  encodeFilter :: "Flags \<Rightarrow> error + FilterConfig"
  link_Kprobe :: "string \<Rightarrow> Program \<Rightarrow> error + Link"
  ctx_Done :: "nat \<Rightarrow> bool"
  NewReader :: "error option"
  rd_Read :: "(perf_Record \<times> error option) list"
  eventSize :: nat

text \<open>The state of \<open>main\<close>: the trace, the configuration slot (\<open>None\<close> until it is
  written), the stack of deferred calls (latest first), the counter \<open>ignored\<close>, the
  number of polls of \<open>ctx.Done()\<close> made so far and the variable \<open>event\<close>. The counter is a
  Go \<open>int\<close>; it never exceeds the size of the catalog, so it cannot wrap.\<close>

record state =
  trace :: "effect list"
  cfgMap :: "FilterConfig option"
  deferred :: "deferred list"
  ignored :: int
  polls :: nat
  event :: Event

definition init_state :: "env \<Rightarrow> state" where
  "init_state e = \<lparr> trace = [], cfgMap = None, deferred = [], ignored = 0, polls = 0,
     event = replicate (eventSize e) 0 \<rparr>"

definition emit :: "effect \<Rightarrow> state \<Rightarrow> state" where
  "emit x s = s\<lparr>trace := trace s @ [x]\<rparr>"

definition defer_call :: "deferred \<Rightarrow> state \<Rightarrow> state" where
  "defer_call d s = s\<lparr>deferred := d # deferred s\<rparr>"

subsection \<open>Control flow\<close>

text \<open>How a statement completes: normally, by \<open>break\<close>, \<open>continue\<close> or \<open>return\<close>, or by
  \<open>os.Exit\<close> (which is how \<open>log.Fatalf\<close> ends).\<close>

datatype completion = Normal | Break | Continue | Return | OsExit nat

text \<open>How a run of \<open>main\<close> ends: it returns (exit status 0), it exits with a status, or
  it blocks for ever in \<open>rd.Read()\<close>.\<close>

datatype outcome = Returned | Exited nat | Blocked

text \<open>\<open>log.Fatalf\<close> prints and calls \<open>os.Exit(1)\<close>. The process ends there: deferred
  calls are not run.\<close>

definition log_Fatalf :: "logmsg \<Rightarrow> state \<Rightarrow> completion \<times> state" where
  "log_Fatalf m s = (OsExit 1, emit (ELog m) s)"

text \<open>A non-blocking \<open>select\<close> on \<open>ctx.Done()\<close> with a \<open>default\<close> case. A \<open>break\<close> in one
  of its cases ends the \<open>select\<close> statement only.\<close>

definition poll_Done :: "env \<Rightarrow> state \<Rightarrow> bool \<times> state" where
  "poll_Done e s =
     (let d = ctx_Done e (polls s) in (d, emit (ECtxDone d) (s\<lparr>polls := polls s + 1\<rparr>)))"

definition select_stmt :: "completion \<Rightarrow> completion" where
  "select_stmt c = (case c of Break \<Rightarrow> Normal | _ \<Rightarrow> c)"

text \<open>When \<open>main\<close> returns, the deferred calls run, latest first.\<close>

fun run_deferred :: "deferred list \<Rightarrow> state \<Rightarrow> state" where
  "run_deferred [] s = s"
| "run_deferred (d # ds) s = run_deferred ds (emit (ERun d) s)"

definition return_main :: "state \<Rightarrow> outcome \<times> state" where
  "return_main s = (Returned, run_deferred (deferred s) (s\<lparr>deferred := []\<rparr>))"

definition finish :: "completion \<Rightarrow> state \<Rightarrow> outcome \<times> state" where
  "finish c s = (case c of OsExit n \<Rightarrow> (Exited n, s) | _ \<Rightarrow> return_main s)"

definition fatal :: "logmsg \<Rightarrow> state \<Rightarrow> outcome \<times> state" where
  "fatal m s = (case log_Fatalf m s of (c, s') \<Rightarrow> finish c s')"

subsection \<open>The filter configurator\<close>

text \<open>Modelled from the spec: \<open>pwru.ConfigBPFMap\<close> is called at line 113 and is not part
  of \<open>main.go\<close>. By sections 3 and 4.3 of the specification it translates the filter
  flags into the fixed-layout configuration record, fails fast before any write when a
  value is not recognised, and otherwise overwrites the single configuration slot
  wholesale. The translation itself is the parameter \<open>encodeFilter\<close> of the environment.\<close>

definition ConfigBPFMap :: "env \<Rightarrow> Flags \<Rightarrow> state \<Rightarrow> completion \<times> state" where
  "ConfigBPFMap e flags s =
     (case encodeFilter e flags of
        Inl err \<Rightarrow> log_Fatalf (FailedToSetFilterMap err) s
      | Inr cfg \<Rightarrow> (Normal, emit (ECfgMapUpdate cfg) (s\<lparr>cfgMap := Some cfg\<rparr>)))"

subsection \<open>The attach loop (lines 118-152)\<close>

text \<open>The \<open>switch\<close> on \<open>pos\<close> (lines 119-134): the program chosen for \<open>fn\<close>, or \<open>None\<close> when
  the \<open>default\<close> case is taken.\<close>

definition switch_pos :: "kprobes \<Rightarrow> int \<Rightarrow> Program option" where
  "switch_pos kps pos =
     (if pos = 1 then Some (kprobe1 kps)
      else if pos = 2 then Some (kprobe2 kps)
      else if pos = 3 then Some (kprobe3 kps)
      else if pos = 4 then Some (kprobe4 kps)
      else if pos = 5 then Some (kprobe5 kps)
      else None)"

text \<open>One pass through the body of the loop, for the entry \<open>(name, pos)\<close>.\<close>

definition attach_body :: "env \<Rightarrow> kprobes \<Rightarrow> string \<times> int \<Rightarrow> state \<Rightarrow> completion \<times> state" where
  "attach_body e kps entry s =
     (case entry of (name, pos) \<Rightarrow>
        (case switch_pos kps pos of
           None \<Rightarrow> (Continue, s\<lparr>ignored := ignored s + 1\<rparr>)
         | Some fn \<Rightarrow>
             (case poll_Done e s of
                (True, s1) \<Rightarrow> (Return, s1)
              | (False, s1) \<Rightarrow>
                  (let s2 = emit EBarIncrement (emit (EKprobe name fn) s1) in
                   case link_Kprobe e name fn of
                     Inl err \<Rightarrow>
                       if \<not> errors_Is_ErrNotExist err
                       then log_Fatalf (OpeningKprobe name err) s2
                       else (Normal, s2\<lparr>ignored := ignored s2 + 1\<rparr>)
                   | Inr kp \<Rightarrow> (Normal, defer_call (DkpClose kp) s2)))))"

text \<open>The \<open>for ... range funcs\<close> statement: \<open>continue\<close> and a normal end of the body go on
  with the next entry, \<open>break\<close> would leave the loop, \<open>return\<close> and \<open>os.Exit\<close> leave
  \<open>main\<close>.\<close>

fun attach_loop :: "env \<Rightarrow> kprobes \<Rightarrow> (string \<times> int) list \<Rightarrow> state \<Rightarrow> completion \<times> state" where
  "attach_loop e kps [] s = (Normal, s)"
| "attach_loop e kps (entry # rest) s =
     (case attach_body e kps entry s of
        (Normal, s') \<Rightarrow> attach_loop e kps rest s'
      | (Continue, s') \<Rightarrow> attach_loop e kps rest s'
      | (Break, s') \<Rightarrow> (Normal, s')
      | (c, s') \<Rightarrow> (c, s'))"

subsection \<open>The event loop (lines 175-203)\<close>

text \<open>\<open>binary.Read(bytes.NewBuffer(raw), binary.LittleEndian, &event)\<close> for a struct of
  \<open>n\<close> bytes: \<open>io.ReadFull\<close> takes \<open>n\<close> bytes from the buffer and fails with \<open>EOF\<close>
  when the buffer is empty, with \<open>ErrUnexpectedEOF\<close> when it is too short; bytes
  beyond \<open>n\<close> stay in the buffer, unread.\<close>

definition binary_Read :: "nat \<Rightarrow> byte list \<Rightarrow> error + Event" where
  "binary_Read n raw =
     (if length raw < n then Inl (if raw = [] then EOF else ErrUnexpectedEOF)
      else Inr (take n raw))"

text \<open>One pass through the body of the loop, for the result \<open>(record, err)\<close> of
  \<open>rd.Read()\<close>.\<close>

definition consume_body :: "env \<Rightarrow> perf_Record \<times> error option \<Rightarrow> state \<Rightarrow> completion \<times> state" where
  "consume_body e rd s =
     (case rd of (record, err) \<Rightarrow>
        (let s0 = emit ERead s in
         if err \<noteq> None \<and> perf_IsClosed (the err) then (Return, s0)
         else
           (let s1 = (case err of None \<Rightarrow> s0
                      | Some x \<Rightarrow> emit (ELog (ReadingFromPerfEventReader x)) s0) in
            if LostSamples record \<noteq> 0
            then (Continue, emit (ELog (DroppedSamples (LostSamples record))) s1)
            else
              (case binary_Read (eventSize e) (RawSample record) of
                 Inl x \<Rightarrow> (Continue, emit (ELog (ParsingPerfEvent x)) s1)
               | Inr ev \<Rightarrow>
                   (let s2 = emit (EPrint ev) (s1\<lparr>event := ev\<rparr>) in
                    case poll_Done e s2 of
                      (True, s3) \<Rightarrow> (select_stmt Break, s3)
                    | (False, s3) \<Rightarrow> (select_stmt Continue, s3))))))"

text \<open>The \<open>for { ... }\<close> statement over the results of \<open>rd.Read()\<close>. The loop has no
  condition: it ends by \<open>break\<close> or by leaving \<open>main\<close>. When the results are used up the
  next \<open>rd.Read()\<close> never answers.\<close>

fun consume :: "env \<Rightarrow> (perf_Record \<times> error option) list \<Rightarrow> state \<Rightarrow> outcome \<times> state" where
  "consume e [] s = (Blocked, emit ERead s)"
| "consume e (rd # rest) s =
     (case consume_body e rd s of
        (Normal, s') \<Rightarrow> consume e rest s'
      | (Continue, s') \<Rightarrow> consume e rest s'
      | (c, s') \<Rightarrow> finish c s')"

subsection \<open>main\<close>

text \<open>\<open>main\<close> is one function; it is written here in three parts, each of which either
  ends the run (\<open>Inl\<close>) or hands the local variables that are still needed to the next
  part (\<open>Inr\<close>).\<close>

text \<open>Lines 55-113: resource limits, the cancellation context, the catalog, the address
  table, the objects and the filter configuration.\<close>

definition startup ::
  "env \<Rightarrow> Flags \<Rightarrow> (outcome \<times> state) + ((string \<times> int) list \<times> kprobes \<times> state)" where
  "startup e flags =
     (let s = emit (ESetrlimit RLIMIT_NOFILE) (init_state e) in
      case Setrlimit e RLIMIT_NOFILE of
        Some err \<Rightarrow> Inl (fatal (FailedToSetRlimitNofile err) s)
      | None \<Rightarrow>
     (let s = emit (ESetrlimit RLIMIT_MEMLOCK) s in
      case Setrlimit e RLIMIT_MEMLOCK of
        Some err \<Rightarrow> Inl (fatal (FailedToSetRlimitMemlock err) s)
      | None \<Rightarrow>
     (let s = defer_call Dstop (emit ENotifyContext s);
          s = emit EGetFuncs s in
      case GetFuncs e of
        Inl err \<Rightarrow> Inl (fatal (FailedToGetFuncs err) s)
      | Inr funcs \<Rightarrow>
     (let s = emit EGetAddrs s in
      case GetAddrs e funcs of
        Some err \<Rightarrow> Inl (fatal (FailedToGetAddrs err) s)
      | None \<Rightarrow>
     (let objs = (if OutputSkb flags then KProbePWRUObjects
                  else KProbePWRUWithoutOutputSKBObjects);
          s = emit (ELoadObjects objs) s in
      case LoadObjects e objs of
        Some err \<Rightarrow> Inl (fatal (LoadingObjects err) s)
      | None \<Rightarrow>
     (let s = defer_call (DobjsClose objs) s;
          kps = assign_kprobes objs in
      case ConfigBPFMap e flags s of
        (Normal, s) \<Rightarrow> Inr (funcs, kps, s)
      | (c, s) \<Rightarrow> Inl (finish c s)))))))"

text \<open>Lines 115-154: the attach loop and its summary.\<close>

definition attach_all ::
  "env \<Rightarrow> kprobes \<Rightarrow> (string \<times> int) list \<Rightarrow> state \<Rightarrow> (outcome \<times> state) + state" where
  "attach_all e kps funcs s =
     (let s = emit (ELog AttachingKprobes) s;
          s = s\<lparr>ignored := 0\<rparr>;
          s = emit (EBarStartNew (length funcs)) s in
      case attach_loop e kps funcs s of
        (Normal, s) \<Rightarrow> Inr (emit (EPrintfAttached (ignored s)) (emit EBarFinish s))
      | (c, s) \<Rightarrow> Inl (finish c s))"

text \<open>Lines 156-203: the reader and the event loop.\<close>

definition listen :: "env \<Rightarrow> state \<Rightarrow> outcome \<times> state" where
  "listen e s =
     (let s = emit ENewReader s in
      case NewReader e of
        Some err \<Rightarrow> fatal (CreatingPerfEventReader err) s
      | None \<Rightarrow>
     (let s = defer_call DrdClose s;
          s = emit (ELog ListeningForEvents) s;
          s = emit ENewOutput s;
          s = emit EPrintHeader s in
      consume e (rd_Read e) s))"

definition main :: "env \<Rightarrow> cmdline \<Rightarrow> outcome \<times> state" where
  "main e args =
     (let flags = parse_flags args in
      case startup e flags of
        Inl r \<Rightarrow> r
      | Inr (funcs, kps, s) \<Rightarrow>
          (case attach_all e kps funcs s of
             Inl r \<Rightarrow> r
           | Inr s' \<Rightarrow> listen e s'))"

subsection \<open>Reading a trace\<close>

text \<open>The attachment attempts of a trace, in order.\<close>

fun attempts :: "effect list \<Rightarrow> (string \<times> Program) list" where
  "attempts [] = []"
| "attempts (EKprobe name fn # es) = (name, fn) # attempts es"
| "attempts (_ # es) = attempts es"

text \<open>The links whose deferred \<open>Close\<close> was run.\<close>

fun closed_links :: "effect list \<Rightarrow> Link list" where
  "closed_links [] = []"
| "closed_links (ERun (DkpClose kp) # es) = kp # closed_links es"
| "closed_links (_ # es) = closed_links es"

text \<open>The links that the attempts of a trace returned.\<close>

fun attached_links :: "env \<Rightarrow> (string \<times> Program) list \<Rightarrow> Link list" where
  "attached_links e [] = []"
| "attached_links e ((name, fn) # as) =
     (case link_Kprobe e name fn of Inl _ \<Rightarrow> attached_links e as
      | Inr kp \<Rightarrow> kp # attached_links e as)"

text \<open>The links whose \<open>Close\<close> is on the stack of deferred calls.\<close>

fun kp_handles :: "deferred list \<Rightarrow> Link list" where
  "kp_handles [] = []"
| "kp_handles (DkpClose kp # ds) = kp # kp_handles ds"
| "kp_handles (_ # ds) = kp_handles ds"

fun is_cfg_update :: "effect \<Rightarrow> bool" where
  "is_cfg_update (ECfgMapUpdate _) = True"
| "is_cfg_update _ = False"

fun is_attempt :: "effect \<Rightarrow> bool" where
  "is_attempt (EKprobe _ _) = True"
| "is_attempt _ = False"

text \<open>The counts of the loss messages and the events rendered.\<close>

fun logged_losses :: "effect list \<Rightarrow> 64 word list" where
  "logged_losses [] = []"
| "logged_losses (ELog (DroppedSamples n) # es) = n # logged_losses es"
| "logged_losses (_ # es) = logged_losses es"

fun printed :: "effect list \<Rightarrow> Event list" where
  "printed [] = []"
| "printed (EPrint ev # es) = ev # printed es"
| "printed (_ # es) = printed es"

definition in_range :: "int \<Rightarrow> bool" where
  "in_range pos = (1 \<le> pos \<and> pos \<le> 5)"

text \<open>The \<open>k\<close>-th of the five program fields.\<close>

definition nth_progfield :: "int \<Rightarrow> progfield" where
  "nth_progfield k = [KprobeSkb1, KprobeSkb2, KprobeSkb3, KprobeSkb4, KprobeSkb5] ! nat (k - 1)"

text \<open>The attempts that a catalog calls for when the programs come from \<open>objs\<close>: one
  for every entry at a position from 1 to 5, in the order of the catalog, with the
  program field of that position.\<close>

definition expected_attempts :: "objset \<Rightarrow> (string \<times> int) list \<Rightarrow> (string \<times> Program) list" where
  "expected_attempts objs funcs =
     map (\<lambda>(name, pos). (name, (objs, nth_progfield pos)))
       (filter (\<lambda>(name, pos). in_range pos) funcs)"

text \<open>An entry that ends up counted in \<open>ignored\<close>: its position takes the \<open>default\<close> case,
  or its symbol is not present.\<close>

definition entry_ignored :: "env \<Rightarrow> kprobes \<Rightarrow> string \<times> int \<Rightarrow> bool" where
  "entry_ignored e kps entry =
     (case switch_pos kps (snd entry) of None \<Rightarrow> True
      | Some fn \<Rightarrow> link_Kprobe e (fst entry) fn = Inl ErrNotExist)"

text \<open>Every attempt of a trace comes directly after a poll of \<open>ctx.Done()\<close> that saw no
  cancellation.\<close>

definition guarded :: "effect list \<Rightarrow> bool" where
  "guarded t = (\<forall>i<length t. is_attempt (t ! i) \<longrightarrow> 0 < i \<and> t ! (i - 1) = ECtxDone False)"

text \<open>The state after one poll and the effects \<open>es\<close>.\<close>

definition polled :: "state \<Rightarrow> effect list \<Rightarrow> state" where
  "polled s es = s\<lparr>polls := polls s + 1, trace := trace s @ es\<rparr>"

text \<open>A result of \<open>rd.Read()\<close> that carries the error of a closed reader.\<close>

definition is_closed :: "perf_Record \<times> error option \<Rightarrow> bool" where
  "is_closed rd = (case snd rd of None \<Rightarrow> False | Some err \<Rightarrow> perf_IsClosed err)"

text \<open>The results that the event loop works through: those before the first closed one.\<close>

definition processed :: "(perf_Record \<times> error option) list \<Rightarrow> (perf_Record \<times> error option) list" where
  "processed rs = takeWhile (Not \<circ> is_closed) rs"

text \<open>The events that a sequence of results calls for: one for every record without lost
  samples that has at least \<open>eventSize\<close> bytes, made of its first \<open>eventSize\<close> bytes.\<close>

definition rendered :: "env \<Rightarrow> (perf_Record \<times> error option) list \<Rightarrow> Event list" where
  "rendered e rs =
     map (\<lambda>rd. take (eventSize e) (RawSample (fst rd)))
       (filter (\<lambda>rd. LostSamples (fst rd) = 0 \<and> eventSize e \<le> length (RawSample (fst rd))) rs)"

text \<open>The non-zero counts of lost samples of a sequence of results.\<close>

definition losses :: "(perf_Record \<times> error option) list \<Rightarrow> 64 word list" where
  "losses rs = filter (\<lambda>n. n \<noteq> 0) (map (\<lambda>rd. LostSamples (fst rd)) rs)"

text \<open>The state after \<open>rd.Read()\<close> has answered with an error that is not the closed one
  (lines 177-183), or with none.\<close>

definition after_read :: "error option \<Rightarrow> state \<Rightarrow> state" where
  "after_read err s =
     (case err of None \<Rightarrow> emit ERead s
      | Some x \<Rightarrow> emit (ELog (ReadingFromPerfEventReader x)) (emit ERead s))"

subsection \<open>Sample runs\<close>

definition args0 :: cmdline where
  "args0 = \<lparr> arg_filter_mark = None, arg_filter_proto = None, arg_filter_src_ip = None,
     arg_filter_dst_ip = None, arg_filter_src_port = None, arg_filter_dst_port = None,
     arg_output_relative_timestamp = None, arg_output_meta = None, arg_output_tuple = None,
     arg_output_skb = None \<rparr>"

text \<open>A catalog of three entries, one of them at position 7; every symbol is present; no
  cancellation; the reader reports a loss, a record of five bytes, a record of three
  bytes, a read error, a record of four bytes, and is then closed. Events have four
  bytes.\<close>

definition env0 :: env where
  "env0 = \<lparr> Setrlimit = (\<lambda>_. None),
     GetFuncs = Inr [(''a'', 1), (''b'', 7), (''c'', 2)],
     GetAddrs = (\<lambda>_. None), LoadObjects = (\<lambda>_. None), encodeFilter = (\<lambda>_. Inr []),
     link_Kprobe = (\<lambda>name fn. if name = ''a'' then Inr 1 else Inr 2),
     ctx_Done = (\<lambda>_. False), NewReader = None,
     rd_Read =
       [(\<lparr>CPU = 0, RawSample = [], LostSamples = 3\<rparr>, None),
        (\<lparr>CPU = 0, RawSample = [1, 2, 3, 4, 5], LostSamples = 0\<rparr>, None),
        (\<lparr>CPU = 0, RawSample = [1, 2, 3], LostSamples = 0\<rparr>, None),
        (\<lparr>CPU = 0, RawSample = [], LostSamples = 0\<rparr>, Some (ErrOther ''EINTR'')),
        (\<lparr>CPU = 0, RawSample = [9, 9, 9, 9], LostSamples = 0\<rparr>, None),
        (\<lparr>CPU = 0, RawSample = [], LostSamples = 0\<rparr>, Some ErrClosed)],
     eventSize = 4 \<rparr>"

text \<open>The same, except that the symbol \<open>a\<close> is not present.\<close>

definition env_absent :: env where
  "env_absent = env0\<lparr>link_Kprobe := (\<lambda>name fn. if name = ''a'' then Inl ErrNotExist else Inr 2)\<rparr>"

text \<open>The same, except that every poll of \<open>ctx.Done()\<close> observes cancellation.\<close>

definition env_cancelled :: env where
  "env_cancelled = env0\<lparr>ctx_Done := (\<lambda>_. True)\<rparr>"

text \<open>Three records: a loss notice, a record of five bytes and a record of three.\<close>

definition lost3 :: perf_Record where
  "lost3 = \<lparr>CPU = 0, RawSample = [], LostSamples = 3\<rparr>"

definition raw5 :: perf_Record where
  "raw5 = \<lparr>CPU = 0, RawSample = [1, 2, 3, 4, 5], LostSamples = 0\<rparr>"

definition raw3 :: perf_Record where
  "raw3 = \<lparr>CPU = 0, RawSample = [1, 2, 3], LostSamples = 0\<rparr>"

text \<open>The same as \<open>env0\<close>, except that cancellation is raised while the first attempt is
  under way: the first poll sees nothing, every later one sees it.\<close>

definition env_cancel1 :: env where
  "env_cancel1 = env0\<lparr>ctx_Done := (\<lambda>n. 1 \<le> n)\<rparr>"

text \<open>The same as \<open>env0\<close>, except that attaching to any symbol but \<open>a\<close> fails with an error
  that is not \<open>os.ErrNotExist\<close>.\<close>

definition env_fatal :: env where
  "env_fatal = env0\<lparr>link_Kprobe :=
     (\<lambda>name fn. if name = ''a'' then Inr 1 else Inl (ErrOther ''permission denied''))\<rparr>"

section \<open>Properties\<close>

subsection \<open>Basic facts\<close>

lemma trace_emit [simp]: "trace (emit x s) = trace s @ [x]"
  and deferred_emit [simp]: "deferred (emit x s) = deferred s"
  and ignored_emit [simp]: "ignored (emit x s) = ignored s"
  and polls_emit [simp]: "polls (emit x s) = polls s"
  and cfgMap_emit [simp]: "cfgMap (emit x s) = cfgMap s"
  and event_emit [simp]: "event (emit x s) = event s"
  by (simp_all add: emit_def)

lemma trace_defer_call [simp]: "trace (defer_call d s) = trace s"
  and deferred_defer_call [simp]: "deferred (defer_call d s) = d # deferred s"
  and ignored_defer_call [simp]: "ignored (defer_call d s) = ignored s"
  and polls_defer_call [simp]: "polls (defer_call d s) = polls s"
  and cfgMap_defer_call [simp]: "cfgMap (defer_call d s) = cfgMap s"
  by (simp_all add: defer_call_def)

lemma attempts_append [simp]: "attempts (xs @ ys) = attempts xs @ attempts ys"
  by (induction xs rule: attempts.induct) simp_all

lemma closed_links_append [simp]: "closed_links (xs @ ys) = closed_links xs @ closed_links ys"
  by (induction xs rule: closed_links.induct) simp_all

lemma attached_links_append [simp]:
  "attached_links e (xs @ ys) = attached_links e xs @ attached_links e ys"
  by (induction xs rule: attached_links.induct) (simp_all split: sum.splits)

lemma logged_losses_append [simp]: "logged_losses (xs @ ys) = logged_losses xs @ logged_losses ys"
  by (induction xs rule: logged_losses.induct) simp_all

lemma printed_append [simp]: "printed (xs @ ys) = printed xs @ printed ys"
  by (induction xs rule: printed.induct) simp_all

lemma trace_run_deferred: "trace (run_deferred ds s) = trace s @ map ERun ds"
  by (induction ds arbitrary: s) simp_all

lemma closed_links_map_ERun [simp]: "closed_links (map ERun ds) = kp_handles ds"
  by (induction ds rule: kp_handles.induct) simp_all

lemma attempts_map_ERun [simp]: "attempts (map ERun ds) = []"
  by (induction ds) simp_all

text \<open>The body of the attach loop, by cases.\<close>

lemma attach_body_eq:
  "attach_body e kps (name, pos) s =
     (case switch_pos kps pos of
        None \<Rightarrow> (Continue, s\<lparr>ignored := ignored s + 1\<rparr>)
      | Some fn \<Rightarrow>
          if ctx_Done e (polls s)
          then (Return, s\<lparr>polls := polls s + 1, trace := trace s @ [ECtxDone True]\<rparr>)
          else (case link_Kprobe e name fn of
                  Inr kp \<Rightarrow>
                    (Normal, s\<lparr>polls := polls s + 1,
                       trace := trace s @ [ECtxDone False, EKprobe name fn, EBarIncrement],
                       deferred := DkpClose kp # deferred s\<rparr>)
                | Inl err \<Rightarrow>
                    if err = ErrNotExist
                    then (Normal, s\<lparr>polls := polls s + 1,
                       trace := trace s @ [ECtxDone False, EKprobe name fn, EBarIncrement],
                       ignored := ignored s + 1\<rparr>)
                    else (OsExit 1, s\<lparr>polls := polls s + 1,
                       trace := trace s @ [ECtxDone False, EKprobe name fn, EBarIncrement,
                         ELog (OpeningKprobe name err)]\<rparr>)))"
  by (simp add: attach_body_def poll_Done_def emit_def defer_call_def log_Fatalf_def
      errors_Is_ErrNotExist_def Let_def split: option.splits sum.splits)

lemma switch_pos_None: "\<not> in_range pos \<Longrightarrow> switch_pos kps pos = None"
  by (auto simp: switch_pos_def in_range_def)

lemma switch_pos_Some: "in_range pos \<Longrightarrow> \<exists>fn. switch_pos kps pos = Some fn"
  by (auto simp: switch_pos_def in_range_def)

lemma switch_pos_assign:
  "in_range pos \<Longrightarrow> switch_pos (assign_kprobes objs) pos = Some (objs, nth_progfield pos)"
  by (auto simp: switch_pos_def in_range_def assign_kprobes_def nth_progfield_def)

lemma attach_loop_induct [consumes 1, case_names Nil Skip Cancel Attach NotExist Fatal]:
  assumes run: "attach_loop e kps funcs s = (c, s')"
    and Nil: "\<And>s. P [] s Normal s"
    and Skip: "\<And>name pos rest s c s'. \<not> in_range pos \<Longrightarrow>
        attach_loop e kps rest (s\<lparr>ignored := ignored s + 1\<rparr>) = (c, s') \<Longrightarrow>
        P rest (s\<lparr>ignored := ignored s + 1\<rparr>) c s' \<Longrightarrow> P ((name, pos) # rest) s c s'"
    and Cancel: "\<And>name pos fn rest s. in_range pos \<Longrightarrow> switch_pos kps pos = Some fn \<Longrightarrow>
        ctx_Done e (polls s) \<Longrightarrow>
        P ((name, pos) # rest) s Return (polled s [ECtxDone True])"
    and Attach: "\<And>name pos fn kp rest s c s'. in_range pos \<Longrightarrow> switch_pos kps pos = Some fn \<Longrightarrow>
        \<not> ctx_Done e (polls s) \<Longrightarrow> link_Kprobe e name fn = Inr kp \<Longrightarrow>
        attach_loop e kps rest
          ((polled s [ECtxDone False, EKprobe name fn, EBarIncrement])
             \<lparr>deferred := DkpClose kp # deferred s\<rparr>) = (c, s') \<Longrightarrow>
        P rest ((polled s [ECtxDone False, EKprobe name fn, EBarIncrement])
             \<lparr>deferred := DkpClose kp # deferred s\<rparr>) c s' \<Longrightarrow>
        P ((name, pos) # rest) s c s'"
    and NotExist: "\<And>name pos fn rest s c s'. in_range pos \<Longrightarrow> switch_pos kps pos = Some fn \<Longrightarrow>
        \<not> ctx_Done e (polls s) \<Longrightarrow> link_Kprobe e name fn = Inl ErrNotExist \<Longrightarrow>
        attach_loop e kps rest
          ((polled s [ECtxDone False, EKprobe name fn, EBarIncrement])
             \<lparr>ignored := ignored s + 1\<rparr>) = (c, s') \<Longrightarrow>
        P rest ((polled s [ECtxDone False, EKprobe name fn, EBarIncrement])
             \<lparr>ignored := ignored s + 1\<rparr>) c s' \<Longrightarrow>
        P ((name, pos) # rest) s c s'"
    and Fatal: "\<And>name pos fn err rest s. in_range pos \<Longrightarrow> switch_pos kps pos = Some fn \<Longrightarrow>
        \<not> ctx_Done e (polls s) \<Longrightarrow> link_Kprobe e name fn = Inl err \<Longrightarrow> err \<noteq> ErrNotExist \<Longrightarrow>
        P ((name, pos) # rest) s (OsExit 1)
          (polled s [ECtxDone False, EKprobe name fn, EBarIncrement,
             ELog (OpeningKprobe name err)])"
  shows "P funcs s c s'"
  using run
proof (induction funcs arbitrary: s)
  case Nil
  then show ?case using assms(2) by simp
next
  case (Cons entry rest)
  obtain name pos where entry: "entry = (name, pos)" by (cases entry)
  show ?case
  proof (cases "in_range pos")
    case False
    then have "attach_loop e kps rest (s\<lparr>ignored := ignored s + 1\<rparr>) = (c, s')"
      using Cons.prems by (simp add: entry attach_body_eq switch_pos_None)
    with False Cons.IH show ?thesis unfolding entry by (intro Skip)
  next
    case True
    then obtain fn where fn: "switch_pos kps pos = Some fn"
      using switch_pos_Some by blast
    show ?thesis
    proof (cases "ctx_Done e (polls s)")
      case True
      then have "c = Return" "s' = polled s [ECtxDone True]"
        using Cons.prems by (simp_all add: entry attach_body_eq fn polled_def)
      with Cancel[OF \<open>in_range pos\<close> fn True] show ?thesis unfolding entry by simp
    next
      case nd: False
      show ?thesis
      proof (cases "link_Kprobe e name fn")
        case (Inr kp)
        then have "attach_loop e kps rest
          ((polled s [ECtxDone False, EKprobe name fn, EBarIncrement])
             \<lparr>deferred := DkpClose kp # deferred s\<rparr>) = (c, s')"
          using Cons.prems nd by (simp add: entry attach_body_eq fn polled_def)
        with \<open>in_range pos\<close> fn nd Inr Cons.IH show ?thesis unfolding entry by (intro Attach)
      next
        case (Inl err)
        show ?thesis
        proof (cases "err = ErrNotExist")
          case True
          then have "attach_loop e kps rest
            ((polled s [ECtxDone False, EKprobe name fn, EBarIncrement])
               \<lparr>ignored := ignored s + 1\<rparr>) = (c, s')"
            using Cons.prems nd Inl by (simp add: entry attach_body_eq fn polled_def)
          with \<open>in_range pos\<close> fn nd Inl True Cons.IH show ?thesis
            unfolding entry by (intro NotExist) simp_all
        next
          case False
          then have "c = OsExit 1" "s' = polled s [ECtxDone False, EKprobe name fn, EBarIncrement,
             ELog (OpeningKprobe name err)]"
            using Cons.prems nd Inl by (simp_all add: entry attach_body_eq fn polled_def)
          with Fatal[OF \<open>in_range pos\<close> fn nd Inl False] show ?thesis
            unfolding entry by simp
        qed
      qed
    qed
  qed
qed

lemma trace_polled [simp]: "trace (polled s es) = trace s @ es"
  and polls_polled [simp]: "polls (polled s es) = polls s + 1"
  and deferred_polled [simp]: "deferred (polled s es) = deferred s"
  and ignored_polled [simp]: "ignored (polled s es) = ignored s"
  and cfgMap_polled [simp]: "cfgMap (polled s es) = cfgMap s"
  by (simp_all add: polled_def)

lemma attach_loop_attempts:
  "attach_loop e (assign_kprobes objs) funcs s = (c, s') \<Longrightarrow>
     (\<exists>n. attempts (trace s') = attempts (trace s) @ take n (expected_attempts objs funcs)) \<and>
     (c = Normal \<longrightarrow> attempts (trace s') = attempts (trace s) @ expected_attempts objs funcs)"
proof (induction rule: attach_loop_induct)
  case (Nil s)
  then show ?case by (simp add: expected_attempts_def)
next
  case (Skip name pos rest s c s')
  then show ?case by (simp add: expected_attempts_def)
next
  case (Cancel name pos fn rest s)
  then show ?case by (auto intro: exI[of _ 0])
next
  case (Attach name pos fn kp rest s c s')
  then obtain n where "attempts (trace s') = attempts (trace s) @ (name, fn) # take n (expected_attempts objs rest)"
    by auto
  moreover have "fn = (objs, nth_progfield pos)" using Attach by (simp add: switch_pos_assign)
  ultimately have "attempts (trace s') = attempts (trace s) @ take (Suc n) (expected_attempts objs ((name, pos) # rest))"
    using Attach by (simp add: expected_attempts_def)
  then have "\<exists>n. attempts (trace s') = attempts (trace s) @ take n (expected_attempts objs ((name, pos) # rest))"
    by blast
  moreover have "c = Normal \<longrightarrow> attempts (trace s') = attempts (trace s) @ expected_attempts objs ((name, pos) # rest)"
    using Attach by (simp add: expected_attempts_def switch_pos_assign)
  ultimately show ?case by blast
next
  case (NotExist name pos fn rest s c s')
  then obtain n where "attempts (trace s') = attempts (trace s) @ (name, fn) # take n (expected_attempts objs rest)"
    by auto
  moreover have "fn = (objs, nth_progfield pos)" using NotExist by (simp add: switch_pos_assign)
  ultimately have "attempts (trace s') = attempts (trace s) @ take (Suc n) (expected_attempts objs ((name, pos) # rest))"
    using NotExist by (simp add: expected_attempts_def)
  then have "\<exists>n. attempts (trace s') = attempts (trace s) @ take n (expected_attempts objs ((name, pos) # rest))"
    by blast
  moreover have "c = Normal \<longrightarrow> attempts (trace s') = attempts (trace s) @ expected_attempts objs ((name, pos) # rest)"
    using NotExist by (simp add: expected_attempts_def switch_pos_assign)
  ultimately show ?case by blast
next
  case (Fatal name pos fn err rest s)
  then show ?case by (auto simp: expected_attempts_def switch_pos_assign intro: exI[of _ 1])
qed


lemma attempts_Nil_iff: "attempts t = [] \<longleftrightarrow> (\<forall>x\<in>set t. \<not> is_attempt x)"
  by (induction t rule: attempts.induct) simp_all

lemma guarded_no_attempts: "attempts t = [] \<Longrightarrow> guarded t"
  by (simp add: guarded_def attempts_Nil_iff)

lemma guarded_append: "guarded t \<Longrightarrow> guarded u \<Longrightarrow> guarded (t @ u)"
  unfolding guarded_def
proof (intro allI impI)
  fix i
  assume t: "\<forall>i<length t. is_attempt (t ! i) \<longrightarrow> 0 < i \<and> t ! (i - 1) = ECtxDone False"
    and u: "\<forall>i<length u. is_attempt (u ! i) \<longrightarrow> 0 < i \<and> u ! (i - 1) = ECtxDone False"
    and i: "i < length (t @ u)" and a: "is_attempt ((t @ u) ! i)"
  show "0 < i \<and> (t @ u) ! (i - 1) = ECtxDone False"
  proof (cases "i < length t")
    case True
    with t a have "0 < i \<and> t ! (i - 1) = ECtxDone False" by (simp add: nth_append)
    moreover from True have "i - 1 < length t" by arith
    ultimately show ?thesis by (simp add: nth_append)
  next
    case False
    then have j: "i - length t < length u" "is_attempt (u ! (i - length t))"
      using i a by (simp_all add: nth_append)
    with u have "0 < i - length t" "u ! (i - length t - 1) = ECtxDone False" by blast+
    moreover from this have "i - 1 - length t = i - length t - 1" "\<not> i - 1 < length t" by arith+
    ultimately show ?thesis by (simp add: nth_append)
  qed
qed

lemma guarded_attempt: "guarded [ECtxDone False, EKprobe name fn]"
  by (auto simp: guarded_def less_Suc_eq)

lemma guarded_single: "\<not> is_attempt x \<Longrightarrow> guarded [x]"
  by (simp add: guarded_def)

text \<open>What the attach loop adds to the trace.\<close>

lemma attach_loop_trace:
  "attach_loop e kps funcs s = (c, s') \<Longrightarrow>
     \<exists>es. trace s' = trace s @ es \<and> guarded es \<and> filter is_cfg_update es = [] \<and>
       closed_links es = [] \<and> cfgMap s' = cfgMap s"
proof (induction rule: attach_loop_induct)
  case (Nil s)
  then show ?case by (simp add: guarded_def)
next
  case (Skip name pos rest s c s')
  then show ?case by simp
next
  case (Cancel name pos fn rest s)
  then show ?case by (simp add: guarded_single)
next
  case (Attach name pos fn kp rest s c s')
  then obtain es where es: "trace s' = trace s @ [ECtxDone False, EKprobe name fn, EBarIncrement] @ es"
    "guarded es" "filter is_cfg_update es = []" "closed_links es = []" "cfgMap s' = cfgMap s"
    by auto
  have "guarded (([ECtxDone False, EKprobe name fn] @ [EBarIncrement]) @ es)"
    by (intro guarded_append guarded_attempt guarded_single es) simp
  with es show ?case by simp
next
  case (NotExist name pos fn rest s c s')
  then obtain es where es: "trace s' = trace s @ [ECtxDone False, EKprobe name fn, EBarIncrement] @ es"
    "guarded es" "filter is_cfg_update es = []" "closed_links es = []" "cfgMap s' = cfgMap s"
    by auto
  have "guarded (([ECtxDone False, EKprobe name fn] @ [EBarIncrement]) @ es)"
    by (intro guarded_append guarded_attempt guarded_single es) simp
  with es show ?case by simp
next
  case (Fatal name pos fn err rest s)
  have "guarded (([ECtxDone False, EKprobe name fn] @ [EBarIncrement]) @ [ELog (OpeningKprobe name err)])"
    by (intro guarded_append guarded_attempt guarded_single) simp_all
  then show ?case by simp
qed

text \<open>The deferred closes mirror the successful attempts.\<close>

lemma attach_loop_deferred:
  "attach_loop e kps funcs s = (c, s') \<Longrightarrow>
     kp_handles (deferred s) = rev (attached_links e (attempts (trace s))) \<Longrightarrow>
     kp_handles (deferred s') = rev (attached_links e (attempts (trace s')))"
  by (induction rule: attach_loop_induct) simp_all

text \<open>A poll that observes cancellation bounds the number of attempts.\<close>

lemma attach_loop_polls:
  "attach_loop e kps funcs s = (c, s') \<Longrightarrow> polls s = length (attempts (trace s)) \<Longrightarrow>
     ctx_Done e k \<Longrightarrow> length (attempts (trace s)) \<le> k \<Longrightarrow> length (attempts (trace s')) \<le> k"
proof (induction rule: attach_loop_induct)
  case (Attach name pos fn kp rest s c s')
  then have "k \<noteq> polls s" by auto
  with Attach show ?case by simp
next
  case (NotExist name pos fn rest s c s')
  then have "k \<noteq> polls s" by auto
  with NotExist show ?case by simp
next
  case (Fatal name pos fn err rest s)
  then have "k \<noteq> polls s" by auto
  with Fatal show ?case by simp
qed simp_all

lemma attach_loop_count:
  "attach_loop e kps funcs s = (c, s') \<Longrightarrow> c = Normal \<Longrightarrow>
     ignored s' = ignored s + int (length (filter (entry_ignored e kps) funcs)) \<and>
     length (kp_handles (deferred s')) =
       length (kp_handles (deferred s)) + length (filter (Not \<circ> entry_ignored e kps) funcs) \<and>
     map fst (attempts (trace s')) =
       map fst (attempts (trace s)) @ map fst (filter (\<lambda>(name, pos). in_range pos) funcs)"
  by (induction rule: attach_loop_induct)
     (simp_all add: entry_ignored_def switch_pos_None)

lemma attach_loop_not_fatal:
  "attach_loop e kps funcs s = (c, s') \<Longrightarrow>
     \<forall>name fn err. link_Kprobe e name fn = Inl err \<longrightarrow> err = ErrNotExist \<Longrightarrow>
     c = Normal \<or> c = Return"
  by (induction rule: attach_loop_induct) auto

text \<open>The body of the event loop, by cases.\<close>

lemma consume_body_closed: "is_closed rd \<Longrightarrow> consume_body e rd s = (Return, emit ERead s)"
  by (cases rd) (auto simp: consume_body_def is_closed_def Let_def split: option.splits)

lemma consume_body_lost:
  "\<not> is_closed (r, err) \<Longrightarrow> LostSamples r \<noteq> 0 \<Longrightarrow>
     consume_body e (r, err) s =
       (Continue, emit (ELog (DroppedSamples (LostSamples r))) (after_read err s))"
  by (auto simp: consume_body_def is_closed_def after_read_def Let_def split: option.splits)

lemma consume_body_short:
  "\<not> is_closed (r, err) \<Longrightarrow> LostSamples r = 0 \<Longrightarrow> length (RawSample r) < eventSize e \<Longrightarrow>
     consume_body e (r, err) s =
       (Continue, emit (ELog (ParsingPerfEvent (if RawSample r = [] then EOF else ErrUnexpectedEOF)))
          (after_read err s))"
  by (auto simp: consume_body_def is_closed_def after_read_def binary_Read_def Let_def
      split: option.splits)

lemma consume_body_print:
  "\<not> is_closed (r, err) \<Longrightarrow> LostSamples r = 0 \<Longrightarrow> eventSize e \<le> length (RawSample r) \<Longrightarrow>
     consume_body e (r, err) s =
       (if ctx_Done e (polls s) then Normal else Continue,
        polled ((after_read err s)\<lparr>event := take (eventSize e) (RawSample r)\<rparr>)
          [EPrint (take (eventSize e) (RawSample r)), ECtxDone (ctx_Done e (polls s))])"
  by (auto simp: consume_body_def is_closed_def after_read_def binary_Read_def Let_def
      poll_Done_def polled_def emit_def select_stmt_def split: option.splits)

lemma after_read_simps [simp]:
  "deferred (after_read err s) = deferred s"
  "polls (after_read err s) = polls s"
  "cfgMap (after_read err s) = cfgMap s"
  "attempts (trace (after_read err s)) = attempts (trace s)"
  "closed_links (trace (after_read err s)) = closed_links (trace s)"
  "logged_losses (trace (after_read err s)) = logged_losses (trace s)"
  "printed (trace (after_read err s)) = printed (trace s)"
  "count_list (trace (after_read err s)) ERead = Suc (count_list (trace s) ERead)"
  "filter is_cfg_update (trace (after_read err s)) = filter is_cfg_update (trace s)"
  by (simp_all add: after_read_def split: option.splits)

lemma after_read_trace: "\<exists>es. trace (after_read err s) = trace s @ es \<and> attempts es = []"
  by (simp add: after_read_def split: option.splits)

lemma consume_Cons_closed:
  "is_closed rd \<Longrightarrow> consume e (rd # rest) s = return_main (emit ERead s)"
  by (simp add: consume_body_closed finish_def)

lemma consume_Cons_open:
  "\<not> is_closed rd \<Longrightarrow> consume e (rd # rest) s = consume e rest (snd (consume_body e rd s))"
proof -
  obtain r err where rd: "rd = (r, err)" by (cases rd)
  assume "\<not> is_closed rd"
  then show ?thesis
    unfolding rd
    by (cases "LostSamples r = 0"; cases "length (RawSample r) < eventSize e")
       (simp_all add: consume_body_lost consume_body_short consume_body_print)
qed

declare consume.simps(2) [simp del]

text \<open>What one pass of the event loop does to the observations of the trace.\<close>

lemma consume_body_obs:
  assumes "\<not> is_closed rd"
  shows "logged_losses (trace (snd (consume_body e rd s))) = logged_losses (trace s) @ losses [rd]"
    and "printed (trace (snd (consume_body e rd s))) = printed (trace s) @ rendered e [rd]"
    and "count_list (trace (snd (consume_body e rd s))) ERead = Suc (count_list (trace s) ERead)"
    and "deferred (snd (consume_body e rd s)) = deferred s"
    and "closed_links (trace (snd (consume_body e rd s))) = closed_links (trace s)"
    and "\<exists>es. trace (snd (consume_body e rd s)) = trace s @ es \<and> attempts es = [] \<and>
           filter is_cfg_update es = []"
proof -
  obtain r err where rd: "rd = (r, err)" by (cases rd)
  note c = assms[unfolded rd]
  consider (lost) "LostSamples r \<noteq> 0"
    | (short) "LostSamples r = 0" "length (RawSample r) < eventSize e"
    | (print) "LostSamples r = 0" "eventSize e \<le> length (RawSample r)"
    by fastforce
  then have "logged_losses (trace (snd (consume_body e rd s))) = logged_losses (trace s) @ losses [rd]
    \<and> printed (trace (snd (consume_body e rd s))) = printed (trace s) @ rendered e [rd]
    \<and> count_list (trace (snd (consume_body e rd s))) ERead = Suc (count_list (trace s) ERead)
    \<and> deferred (snd (consume_body e rd s)) = deferred s
    \<and> closed_links (trace (snd (consume_body e rd s))) = closed_links (trace s)
    \<and> (\<exists>es. trace (snd (consume_body e rd s)) = trace s @ es \<and> attempts es = [] \<and>
           filter is_cfg_update es = [])"
  proof cases
    case lost
    with c show ?thesis unfolding rd
      by (auto simp: consume_body_lost losses_def rendered_def after_read_def split: option.splits)
  next
    case short
    with c show ?thesis unfolding rd
      by (auto simp: consume_body_short losses_def rendered_def after_read_def split: option.splits)
  next
    case print
    with c show ?thesis unfolding rd
      by (auto simp: consume_body_print losses_def rendered_def after_read_def split: option.splits)
  qed
  then show "logged_losses (trace (snd (consume_body e rd s))) = logged_losses (trace s) @ losses [rd]"
    and "printed (trace (snd (consume_body e rd s))) = printed (trace s) @ rendered e [rd]"
    and "count_list (trace (snd (consume_body e rd s))) ERead = Suc (count_list (trace s) ERead)"
    and "deferred (snd (consume_body e rd s)) = deferred s"
    and "closed_links (trace (snd (consume_body e rd s))) = closed_links (trace s)"
    and "\<exists>es. trace (snd (consume_body e rd s)) = trace s @ es \<and> attempts es = [] \<and>
           filter is_cfg_update es = []"
    by blast+
qed


lemma losses_Cons: "losses (rd # rs) = losses [rd] @ losses rs"
  by (simp add: losses_def)

lemma rendered_Cons: "rendered e (rd # rs) = rendered e [rd] @ rendered e rs"
  by (simp add: rendered_def)

lemma return_main_obs:
  "fst (return_main s) = Returned"
  "trace (snd (return_main s)) = trace s @ map ERun (deferred s)"
  by (simp_all add: return_main_def trace_run_deferred)

lemma logged_losses_map_ERun [simp]: "logged_losses (map ERun ds) = []"
  by (induction ds) simp_all

lemma printed_map_ERun [simp]: "printed (map ERun ds) = []"
  by (induction ds) simp_all

lemma count_ERead_map_ERun [simp]: "count_list (map ERun ds) ERead = 0"
  by (induction ds) simp_all

lemma filter_cfg_map_ERun [simp]: "filter is_cfg_update (map ERun ds) = []"
  by (induction ds) simp_all

text \<open>The event loop: how it ends and what it leaves in the trace.\<close>

lemma consume_outcome:
  "fst (consume e rs s) = (if list_ex is_closed rs then Returned else Blocked)"
proof (induction rs arbitrary: s)
  case Nil
  then show ?case by simp
next
  case (Cons rd rs)
  then show ?case
    by (cases "is_closed rd") (simp_all add: consume_Cons_closed consume_Cons_open return_main_obs)
qed

lemma consume_reads:
  "count_list (trace (snd (consume e rs s))) ERead =
     count_list (trace s) ERead + Suc (length (processed rs))"
  by (induction rs arbitrary: s)
     (simp_all add: processed_def consume_Cons_closed consume_Cons_open return_main_obs
        consume_body_obs)

lemma consume_losses:
  "logged_losses (trace (snd (consume e rs s))) = logged_losses (trace s) @ losses (processed rs)"
proof (induction rs arbitrary: s)
  case Nil
  then show ?case by (simp add: processed_def losses_def)
next
  case (Cons rd rs)
  show ?case
  proof (cases "is_closed rd")
    case True
    then show ?thesis
      by (simp add: consume_Cons_closed return_main_obs processed_def losses_def)
  next
    case False
    then have "processed (rd # rs) = rd # processed rs" by (simp add: processed_def)
    with False Cons show ?thesis
      by (simp add: consume_Cons_open consume_body_obs losses_Cons[of rd "processed rs"])
  qed
qed

lemma consume_printed:
  "printed (trace (snd (consume e rs s))) = printed (trace s) @ rendered e (processed rs)"
proof (induction rs arbitrary: s)
  case Nil
  then show ?case by (simp add: processed_def rendered_def)
next
  case (Cons rd rs)
  show ?case
  proof (cases "is_closed rd")
    case True
    then show ?thesis
      by (simp add: consume_Cons_closed return_main_obs processed_def rendered_def)
  next
    case False
    then have "processed (rd # rs) = rd # processed rs" by (simp add: processed_def)
    with False Cons show ?thesis
      by (simp add: consume_Cons_open consume_body_obs rendered_Cons[of e rd "processed rs"])
  qed
qed

lemma consume_deferred_run:
  "closed_links (trace (snd (consume e rs s))) =
     closed_links (trace s) @ (if list_ex is_closed rs then kp_handles (deferred s) else [])"
proof (induction rs arbitrary: s)
  case Nil
  then show ?case by simp
next
  case (Cons rd rs)
  then show ?case
    by (cases "is_closed rd")
       (simp_all add: consume_Cons_closed consume_Cons_open return_main_obs consume_body_obs)
qed

lemma consume_trace:
  "\<exists>es. trace (snd (consume e rs s)) = trace s @ es \<and> attempts es = [] \<and>
     filter is_cfg_update es = []"
proof (induction rs arbitrary: s)
  case Nil
  then show ?case by simp
next
  case (Cons rd rs)
  show ?case
  proof (cases "is_closed rd")
    case True
    then show ?thesis by (simp add: consume_Cons_closed return_main_obs)
  next
    case False
    from consume_body_obs(6)[OF False, of e s] obtain es1 where
      es1: "trace (snd (consume_body e rd s)) = trace s @ es1" "attempts es1 = []"
        "filter is_cfg_update es1 = []" by blast
    from Cons[of "snd (consume_body e rd s)"] obtain es2 where
      es2: "trace (snd (consume e rs (snd (consume_body e rd s)))) =
          trace (snd (consume_body e rd s)) @ es2" "attempts es2 = []"
        "filter is_cfg_update es2 = []" by blast
    from es1 es2 False show ?thesis by (simp add: consume_Cons_open)
  qed
qed

lemma sum_losses: "sum_list (map unat (losses rs)) = sum_list (map (\<lambda>rd. unat (LostSamples (fst rd))) rs)"
  by (induction rs) (simp_all add: losses_def)

text \<open>The three parts of main.\<close>

lemma startup_Inl:
  "startup e flags = Inl (out, s) \<Longrightarrow>
     out = Exited 1 \<and> attempts (trace s) = [] \<and> filter is_cfg_update (trace s) = [] \<and>
     closed_links (trace s) = []"
  by (auto simp: startup_def Let_def fatal_def log_Fatalf_def finish_def ConfigBPFMap_def
      init_state_def emit_def defer_call_def
      split: option.splits sum.splits prod.splits completion.splits if_splits)

lemma startup_Inr:
  "startup e flags = Inr (funcs, kps, s) \<Longrightarrow>
     (\<exists>pre cfg. trace s = pre @ [ECfgMapUpdate cfg] \<and> attempts pre = [] \<and>
        filter is_cfg_update pre = [] \<and> closed_links pre = [] \<and>
        encodeFilter e flags = Inr cfg \<and> cfgMap s = Some cfg) \<and>
     polls s = 0 \<and> kp_handles (deferred s) = [] \<and> GetFuncs e = Inr funcs \<and>
     kps = assign_kprobes (if OutputSkb flags then KProbePWRUObjects
                           else KProbePWRUWithoutOutputSKBObjects)"
  by (auto simp: startup_def Let_def fatal_def log_Fatalf_def finish_def ConfigBPFMap_def
      init_state_def emit_def defer_call_def
      split: option.splits sum.splits prod.splits completion.splits if_splits)

lemma attach_all_cases:
  obtains (Completed) s2 s' where
      "attach_loop e kps funcs
         (emit (EBarStartNew (length funcs)) ((emit (ELog AttachingKprobes) s)\<lparr>ignored := 0\<rparr>)) =
       (Normal, s2)"
      "attach_all e kps funcs s = Inr (emit (EPrintfAttached (ignored s2)) (emit EBarFinish s2))"
  | (Ended) c s2 where
      "attach_loop e kps funcs
         (emit (EBarStartNew (length funcs)) ((emit (ELog AttachingKprobes) s)\<lparr>ignored := 0\<rparr>)) =
       (c, s2)"
      "c = Return \<or> c = OsExit 1"
      "attach_all e kps funcs s = Inl (finish c s2)"
proof -
  let ?s1 = "emit (EBarStartNew (length funcs)) ((emit (ELog AttachingKprobes) s)\<lparr>ignored := 0\<rparr>)"
  obtain c s2 where run: "attach_loop e kps funcs ?s1 = (c, s2)"
    by (cases "attach_loop e kps funcs ?s1")
  have "c = Normal \<or> c = Return \<or> c = OsExit 1"
    using run by (induction rule: attach_loop_induct) simp_all
  then show ?thesis
    using run that by (auto simp: attach_all_def Let_def)
qed


lemma finish_obs:
  "fst (finish c s) = (case c of OsExit n \<Rightarrow> Exited n | _ \<Rightarrow> Returned)"
  "trace (snd (finish c s)) = trace s @ (case c of OsExit n \<Rightarrow> [] | _ \<Rightarrow> map ERun (deferred s))"
  by (simp_all add: finish_def return_main_obs split: completion.splits)

lemma attach_all_Inr:
  assumes r: "attach_all e kps funcs s = Inr s'"
    and p: "polls s = length (attempts (trace s))"
    and d: "kp_handles (deferred s) = rev (attached_links e (attempts (trace s)))"
  shows "\<exists>es. trace s' = trace s @ es \<and> guarded es \<and> filter is_cfg_update es = [] \<and>
           closed_links es = []"
    and "kp_handles (deferred s') = rev (attached_links e (attempts (trace s')))"
    and "ctx_Done e k \<Longrightarrow> length (attempts (trace s)) \<le> k \<Longrightarrow> length (attempts (trace s')) \<le> k"
proof -
  let ?s1 = "emit (EBarStartNew (length funcs)) ((emit (ELog AttachingKprobes) s)\<lparr>ignored := 0\<rparr>)"
  have s1: "trace ?s1 = trace s @ [ELog AttachingKprobes, EBarStartNew (length funcs)]"
    "polls ?s1 = polls s" "deferred ?s1 = deferred s"
    by (simp_all add: emit_def)
  from r obtain s2 where run: "attach_loop e kps funcs ?s1 = (Normal, s2)"
    and s': "s' = emit (EPrintfAttached (ignored s2)) (emit EBarFinish s2)"
    by (cases rule: attach_all_cases[of e kps funcs s]) auto
  from attach_loop_trace[OF run] obtain es where es: "trace s2 = trace ?s1 @ es" "guarded es"
    "filter is_cfg_update es = []" "closed_links es = []" by blast
  have "guarded (([ELog AttachingKprobes] @ [EBarStartNew (length funcs)]) @ es @
      ([EBarFinish] @ [EPrintfAttached (ignored s2)]))"
    by (intro guarded_append guarded_single es) simp_all
  then show "\<exists>es. trace s' = trace s @ es \<and> guarded es \<and> filter is_cfg_update es = [] \<and>
           closed_links es = []"
    using es by (simp add: s' s1)
  show "kp_handles (deferred s') = rev (attached_links e (attempts (trace s')))"
    using attach_loop_deferred[OF run] d by (simp add: s' s1)
  show "ctx_Done e k \<Longrightarrow> length (attempts (trace s)) \<le> k \<Longrightarrow> length (attempts (trace s')) \<le> k"
    using attach_loop_polls[OF run, of k] p by (simp add: s' s1)
qed

lemma attach_all_Inl:
  assumes r: "attach_all e kps funcs s = Inl (out, s')"
    and p: "polls s = length (attempts (trace s))"
    and d: "kp_handles (deferred s) = rev (attached_links e (attempts (trace s)))"
  shows "\<exists>es. trace s' = trace s @ es \<and> guarded es \<and> filter is_cfg_update es = []"
    and "ctx_Done e k \<Longrightarrow> length (attempts (trace s)) \<le> k \<Longrightarrow> length (attempts (trace s')) \<le> k"
    and "out = Returned \<Longrightarrow>
           closed_links (trace s') =
             closed_links (trace s) @ rev (attached_links e (attempts (trace s')))"
proof -
  let ?s1 = "emit (EBarStartNew (length funcs)) ((emit (ELog AttachingKprobes) s)\<lparr>ignored := 0\<rparr>)"
  have s1: "trace ?s1 = trace s @ [ELog AttachingKprobes, EBarStartNew (length funcs)]"
    "polls ?s1 = polls s" "deferred ?s1 = deferred s"
    by (simp_all add: emit_def)
  from r obtain c s2 where run: "attach_loop e kps funcs ?s1 = (c, s2)"
    and c: "c = Return \<or> c = OsExit 1" and fin: "(out, s') = finish c s2"
    by (cases rule: attach_all_cases[of e kps funcs s]) auto
  from fin have out: "out = fst (finish c s2)" and s': "s' = snd (finish c s2)"
    by (metis fst_conv, metis snd_conv)
  from attach_loop_trace[OF run] obtain es where es: "trace s2 = trace ?s1 @ es" "guarded es"
    "filter is_cfg_update es = []" "closed_links es = []" by blast
  let ?run = "case c of OsExit n \<Rightarrow> [] | _ \<Rightarrow> map ERun (deferred s2)"
  have tr: "trace s' = trace s @ [ELog AttachingKprobes, EBarStartNew (length funcs)] @ es @ ?run"
    by (simp add: s' finish_obs es s1)
  have nr: "attempts ?run = []" "filter is_cfg_update ?run = []"
    using c by auto
  have "guarded (([ELog AttachingKprobes] @ [EBarStartNew (length funcs)]) @ es @ ?run)"
    by (intro guarded_append guarded_single es guarded_no_attempts nr) simp_all
  then show "\<exists>es. trace s' = trace s @ es \<and> guarded es \<and> filter is_cfg_update es = []"
    using es nr by (simp add: tr)
  have at: "attempts (trace s') = attempts (trace s2)"
    using nr by (simp add: tr es s1)
  show "ctx_Done e k \<Longrightarrow> length (attempts (trace s)) \<le> k \<Longrightarrow> length (attempts (trace s')) \<le> k"
    using attach_loop_polls[OF run, of k] p by (simp add: at s1)
  show "closed_links (trace s') =
      closed_links (trace s) @ rev (attached_links e (attempts (trace s')))" if "out = Returned"
  proof -
    from that c have "c = Return" by (auto simp: out finish_obs)
    then have "closed_links (trace s') = closed_links (trace s) @ kp_handles (deferred s2)"
      using es by (simp add: tr)
    then show ?thesis
      using attach_loop_deferred[OF run] d by (simp add: at s1)
  qed
qed

lemma listen_ext:
  "\<exists>es. trace (snd (listen e s)) = trace s @ es \<and> attempts es = [] \<and>
     filter is_cfg_update es = []"
proof (cases "NewReader e")
  case (Some err)
  then show ?thesis
    by (simp add: listen_def Let_def fatal_def log_Fatalf_def finish_def)
next
  case None
  let ?s3 = "emit EPrintHeader (emit ENewOutput (emit (ELog ListeningForEvents)
    (defer_call DrdClose (emit ENewReader s))))"
  from consume_trace[of e "rd_Read e" ?s3] obtain es where
    "trace (snd (consume e (rd_Read e) ?s3)) = trace ?s3 @ es" "attempts es = []"
    "filter is_cfg_update es = []" by blast
  with None show ?thesis by (simp add: listen_def Let_def)
qed

lemma listen_release:
  "fst (listen e s) = Returned \<Longrightarrow>
     closed_links (trace (snd (listen e s))) = closed_links (trace s) @ kp_handles (deferred s)"
proof (cases "NewReader e")
  case (Some err)
  assume "fst (listen e s) = Returned"
  with Some show ?thesis
    by (simp add: listen_def Let_def fatal_def log_Fatalf_def finish_def)
next
  case None
  assume "fst (listen e s) = Returned"
  with None show ?thesis
    by (simp add: listen_def Let_def consume_deferred_run consume_outcome split: if_splits)
qed


lemma main_cases:
  obtains (Startup) out s where
      "startup e (parse_flags args) = Inl (out, s)" "main e args = (out, s)"
  | (Attach) funcs kps s0 out s where
      "startup e (parse_flags args) = Inr (funcs, kps, s0)"
      "attach_all e kps funcs s0 = Inl (out, s)" "main e args = (out, s)"
  | (Listen) funcs kps s0 s1 where
      "startup e (parse_flags args) = Inr (funcs, kps, s0)"
      "attach_all e kps funcs s0 = Inr s1" "main e args = listen e s1"
proof (cases "startup e (parse_flags args)")
  case (Inl r)
  then show ?thesis using Startup[of "fst r" "snd r"] by (simp add: main_def)
next
  case (Inr x)
  obtain funcs kps s0 where x: "x = (funcs, kps, s0)" by (cases x)
  show ?thesis
  proof (cases "attach_all e kps funcs s0")
    case (Inl r)
    then show ?thesis using Attach[of funcs kps s0 "fst r" "snd r"] Inr x by (simp add: main_def)
  next
    case r: (Inr s1)
    then show ?thesis using Listen[of funcs kps s0 s1] Inr x by (simp add: main_def)
  qed
qed

text \<open>The shape of every trace of main.\<close>

lemma main_shape:
  "(attempts (trace (snd (main e args))) = [] \<and>
    filter is_cfg_update (trace (snd (main e args))) = []) \<or>
   (\<exists>pre cfg es. trace (snd (main e args)) = pre @ ECfgMapUpdate cfg # es \<and>
      attempts pre = [] \<and> filter is_cfg_update pre = [] \<and> guarded es \<and>
      filter is_cfg_update es = [] \<and> encodeFilter e (parse_flags args) = Inr cfg)"
proof (cases rule: main_cases[of e args])
  case (Startup out s)
  then show ?thesis using startup_Inl by fastforce
next
  case (Attach funcs kps s0 out s)
  from startup_Inr[OF Attach(1)] obtain pre cfg where
    s0: "trace s0 = pre @ [ECfgMapUpdate cfg]" "attempts pre = []" "filter is_cfg_update pre = []"
      "encodeFilter e (parse_flags args) = Inr cfg" "polls s0 = 0" "kp_handles (deferred s0) = []"
    by blast
  from attach_all_Inl(1)[OF Attach(2)] s0 obtain es where
    es: "trace s = trace s0 @ es" "guarded es" "filter is_cfg_update es = []" by auto
  have "trace (snd (main e args)) = pre @ ECfgMapUpdate cfg # es"
    using s0 es Attach(3) by simp
  with es s0 show ?thesis by blast
next
  case (Listen funcs kps s0 s1)
  from startup_Inr[OF Listen(1)] obtain pre cfg where
    s0: "trace s0 = pre @ [ECfgMapUpdate cfg]" "attempts pre = []" "filter is_cfg_update pre = []"
      "encodeFilter e (parse_flags args) = Inr cfg" "polls s0 = 0" "kp_handles (deferred s0) = []"
    by blast
  from attach_all_Inr(1)[OF Listen(2)] s0 obtain es where
    es: "trace s1 = trace s0 @ es" "guarded es" "filter is_cfg_update es = []" by auto
  from listen_ext[of e s1] obtain es' where
    es': "trace (snd (listen e s1)) = trace s1 @ es'" "attempts es' = []"
      "filter is_cfg_update es' = []" by blast
  have "guarded (es @ es')" by (intro guarded_append es guarded_no_attempts es')
  moreover have "trace (snd (main e args)) = pre @ ECfgMapUpdate cfg # (es @ es')"
    using s0 es es' Listen(3) by simp
  moreover have "filter is_cfg_update (es @ es') = []" using es es' by simp
  ultimately show ?thesis using s0 by blast
qed

lemma main_cancel_bound:
  "ctx_Done e k \<Longrightarrow> length (attempts (trace (snd (main e args)))) \<le> k"
proof (cases rule: main_cases[of e args])
  case (Startup out s)
  then show ?thesis using startup_Inl by fastforce
next
  case (Attach funcs kps s0 out s)
  assume k: "ctx_Done e k"
  from startup_Inr[OF Attach(1)] have
    s0: "attempts (trace s0) = []" "polls s0 = 0" "kp_handles (deferred s0) = []" by auto
  from attach_all_Inl(2)[OF Attach(2) _ _ k] s0 Attach(3) show ?thesis by simp
next
  case (Listen funcs kps s0 s1)
  assume k: "ctx_Done e k"
  from startup_Inr[OF Listen(1)] have
    s0: "attempts (trace s0) = []" "polls s0 = 0" "kp_handles (deferred s0) = []" by auto
  from attach_all_Inr(3)[OF Listen(2) _ _ k] s0 have "length (attempts (trace s1)) \<le> k" by simp
  moreover from listen_ext[of e s1] have "attempts (trace (snd (listen e s1))) = attempts (trace s1)"
    by auto
  ultimately show ?thesis using Listen(3) by simp
qed

lemma main_release:
  "fst (main e args) = Returned \<Longrightarrow>
     closed_links (trace (snd (main e args))) =
       rev (attached_links e (attempts (trace (snd (main e args)))))"
proof (cases rule: main_cases[of e args])
  case (Startup out s)
  assume "fst (main e args) = Returned"
  with Startup startup_Inl show ?thesis by fastforce
next
  case (Attach funcs kps s0 out s)
  assume "fst (main e args) = Returned"
  then have out: "out = Returned" using Attach(3) by simp
  from startup_Inr[OF Attach(1)] have
    s0: "attempts (trace s0) = []" "polls s0 = 0" "kp_handles (deferred s0) = []"
      "closed_links (trace s0) = []" by auto
  from attach_all_Inl(3)[OF Attach(2) _ _ out] s0 Attach(3) show ?thesis by simp
next
  case (Listen funcs kps s0 s1)
  assume ret: "fst (main e args) = Returned"
  from startup_Inr[OF Listen(1)] have
    s0: "attempts (trace s0) = []" "polls s0 = 0" "kp_handles (deferred s0) = []"
      "closed_links (trace s0) = []" by auto
  from attach_all_Inr(1)[OF Listen(2)] s0 have c1: "closed_links (trace s1) = []" by auto
  from attach_all_Inr(2)[OF Listen(2)] s0
  have d1: "kp_handles (deferred s1) = rev (attached_links e (attempts (trace s1)))" by simp
  from listen_ext[of e s1] have "attempts (trace (snd (listen e s1))) = attempts (trace s1)"
    by auto
  moreover from ret Listen(3) have "fst (listen e s1) = Returned" by simp
  ultimately show ?thesis using listen_release[of e s1] c1 d1 Listen(3) by simp
qed

lemma first_attempt_after:
  assumes "attempts pre = []" and "\<not> is_attempt u" and "i < length (pre @ u # es)"
    and "is_attempt ((pre @ u # es) ! i)"
  shows "length pre < i"
proof (rule ccontr)
  assume "\<not> length pre < i"
  then consider "i < length pre" | "i = length pre" by fastforce
  then show False
  proof cases
    case 1
    then have "(pre @ u # es) ! i \<in> set pre" by (simp add: nth_append)
    with assms(1,4) show False by (simp add: attempts_Nil_iff)
  next
    case 2
    with assms(2,4) show False by simp
  qed
qed

text \<open>A poll that observes cancellation is the last thing the attach loop does.\<close>

lemma attach_loop_cancel:
  "attach_loop e kps funcs s = (c, s') \<Longrightarrow>
     \<exists>es. trace s' = trace s @ es \<and> ENewReader \<notin> set es \<and>
       (if c = Return then \<exists>es0. es = es0 @ [ECtxDone True] \<and> ECtxDone True \<notin> set es0
        else ECtxDone True \<notin> set es)"
proof (induction rule: attach_loop_induct)
  case (Nil s)
  then show ?case by simp
next
  case (Skip name pos rest s c s')
  then show ?case by simp
next
  case (Cancel name pos fn rest s)
  then show ?case by simp
next
  case (Attach name pos fn kp rest s c s')
  then obtain es where es: "trace s' = trace s @ [ECtxDone False, EKprobe name fn, EBarIncrement] @ es"
    "ENewReader \<notin> set es"
    "if c = Return then \<exists>es0. es = es0 @ [ECtxDone True] \<and> ECtxDone True \<notin> set es0
     else ECtxDone True \<notin> set es"
    by auto
  show ?case
  proof (cases "c = Return")
    case True
    with es obtain es0 where "es = es0 @ [ECtxDone True]" "ECtxDone True \<notin> set es0" by auto
    then have "[ECtxDone False, EKprobe name fn, EBarIncrement] @ es =
        ([ECtxDone False, EKprobe name fn, EBarIncrement] @ es0) @ [ECtxDone True] \<and>
      ECtxDone True \<notin> set ([ECtxDone False, EKprobe name fn, EBarIncrement] @ es0)"
      by simp
    then show ?thesis using es True by (intro exI[of _ "[ECtxDone False, EKprobe name fn, EBarIncrement] @ es"]) auto
  next
    case False
    with es show ?thesis by (intro exI[of _ "[ECtxDone False, EKprobe name fn, EBarIncrement] @ es"]) auto
  qed
next
  case (NotExist name pos fn rest s c s')
  then obtain es where es: "trace s' = trace s @ [ECtxDone False, EKprobe name fn, EBarIncrement] @ es"
    "ENewReader \<notin> set es"
    "if c = Return then \<exists>es0. es = es0 @ [ECtxDone True] \<and> ECtxDone True \<notin> set es0
     else ECtxDone True \<notin> set es"
    by auto
  show ?case
  proof (cases "c = Return")
    case True
    with es obtain es0 where "es = es0 @ [ECtxDone True]" "ECtxDone True \<notin> set es0" by auto
    then have "[ECtxDone False, EKprobe name fn, EBarIncrement] @ es =
        ([ECtxDone False, EKprobe name fn, EBarIncrement] @ es0) @ [ECtxDone True] \<and>
      ECtxDone True \<notin> set ([ECtxDone False, EKprobe name fn, EBarIncrement] @ es0)"
      by simp
    then show ?thesis using es True by (intro exI[of _ "[ECtxDone False, EKprobe name fn, EBarIncrement] @ es"]) auto
  next
    case False
    with es show ?thesis by (intro exI[of _ "[ECtxDone False, EKprobe name fn, EBarIncrement] @ es"]) auto
  qed
next
  case (Fatal name pos fn err rest s)
  then show ?case by simp
qed

lemma startup_quiet:
  "startup e flags = Inl (out, s) \<Longrightarrow> ECtxDone True \<notin> set (trace s)"
  "startup e flags = Inr (funcs, kps, s) \<Longrightarrow>
     ECtxDone True \<notin> set (trace s) \<and> ENewReader \<notin> set (trace s)"
  by (auto simp: startup_def Let_def fatal_def log_Fatalf_def finish_def ConfigBPFMap_def
      init_state_def emit_def defer_call_def
      split: option.splits sum.splits prod.splits completion.splits if_splits)

lemma listen_reader: "ENewReader \<in> set (trace (snd (listen e s)))"
proof (cases "NewReader e")
  case (Some err)
  then show ?thesis
    by (simp add: listen_def Let_def fatal_def log_Fatalf_def finish_def)
next
  case None
  let ?s3 = "emit EPrintHeader (emit ENewOutput (emit (ELog ListeningForEvents)
    (defer_call DrdClose (emit ENewReader s))))"
  from consume_trace[of e "rd_Read e" ?s3] obtain es where
    "trace (snd (consume e (rd_Read e) ?s3)) = trace ?s3 @ es" by blast
  with None show ?thesis by (simp add: listen_def Let_def)
qed

lemma not_in_map_ERun [simp]: "ECtxDone b \<notin> set (map ERun ds)"
  by (induction ds) auto

text \<open>A poll that observes cancellation during attachment makes main return.\<close>

lemma main_cancelled:
  assumes "ECtxDone True \<in> set (trace (snd (main e args)))"
    and "ENewReader \<notin> set (trace (snd (main e args)))"
  shows "fst (main e args) = Returned \<and>
    (\<exists>before ds. trace (snd (main e args)) = before @ ECtxDone True # map ERun ds \<and>
       ECtxDone True \<notin> set before \<and>
       kp_handles ds = rev (attached_links e (attempts before)))"
proof (cases rule: main_cases[of e args])
  case (Startup out s)
  with assms(1) startup_quiet(1) show ?thesis by fastforce
next
  case (Listen funcs kps s0 s1)
  with assms(2) listen_reader[of e s1] show ?thesis by simp
next
  case (Attach funcs kps s0 out s)
  let ?s1 = "emit (EBarStartNew (length funcs)) ((emit (ELog AttachingKprobes) s0)\<lparr>ignored := 0\<rparr>)"
  have s1: "trace ?s1 = trace s0 @ [ELog AttachingKprobes, EBarStartNew (length funcs)]"
    "polls ?s1 = polls s0" "deferred ?s1 = deferred s0"
    by (simp_all add: emit_def)
  from startup_Inr[OF Attach(1)] have
    s0: "attempts (trace s0) = []" "kp_handles (deferred s0) = []" by auto
  from startup_quiet(2)[OF Attach(1)] have q: "ECtxDone True \<notin> set (trace s0)" by simp
  from Attach(2) obtain c s2 where run: "attach_loop e kps funcs ?s1 = (c, s2)"
    and c: "c = Return \<or> c = OsExit 1" and fin: "(out, s) = finish c s2"
    by (cases rule: attach_all_cases[of e kps funcs s0]) auto
  from fin have out: "out = fst (finish c s2)" and s: "s = snd (finish c s2)"
    by (metis fst_conv, metis snd_conv)
  from attach_loop_cancel[OF run] obtain es where es: "trace s2 = trace ?s1 @ es"
    "if c = Return then \<exists>es0. es = es0 @ [ECtxDone True] \<and> ECtxDone True \<notin> set es0
     else ECtxDone True \<notin> set es" by blast
  have "c = Return"
  proof (rule ccontr)
    assume "c \<noteq> Return"
    with c es q have "ECtxDone True \<notin> set (trace s)"
      by (auto simp: s finish_obs s1)
    with assms(1) Attach(3) show False by simp
  qed
  with es obtain es0 where es0: "es = es0 @ [ECtxDone True]" "ECtxDone True \<notin> set es0" by auto
  let ?before = "trace s0 @ [ELog AttachingKprobes, EBarStartNew (length funcs)] @ es0"
  have t: "trace (snd (main e args)) = ?before @ ECtxDone True # map ERun (deferred s2)"
    using \<open>c = Return\<close> by (simp add: Attach(3) s finish_obs es s1 es0)
  have "kp_handles (deferred s2) = rev (attached_links e (attempts (trace s2)))"
    using attach_loop_deferred[OF run] s0 by (simp add: s1)
  then have "kp_handles (deferred s2) = rev (attached_links e (attempts ?before))"
    by (simp add: es s1 es0)
  moreover have "ECtxDone True \<notin> set ?before" using q es0 by simp
  moreover have "fst (main e args) = Returned"
    using \<open>c = Return\<close> by (simp add: Attach(3) out finish_obs)
  ultimately show ?thesis using t by blast
qed


text \<open>When no attachment fails fatally, a poll that observes cancellation is reached.\<close>

lemma attach_loop_returns:
  "attach_loop e kps funcs s = (c, s') \<Longrightarrow>
     \<forall>name pos fn err. (name, pos) \<in> set funcs \<and> switch_pos kps pos = Some fn \<and>
        link_Kprobe e name fn = Inl err \<longrightarrow> err = ErrNotExist \<Longrightarrow>
     ctx_Done e k \<Longrightarrow> polls s \<le> k \<Longrightarrow>
     k < polls s + length (filter (\<lambda>(name, pos). in_range pos) funcs) \<Longrightarrow> c = Return"
proof (induction rule: attach_loop_induct)
  case (Attach name pos fn kp rest s c s')
  then have "k \<noteq> polls s" by auto
  moreover from Attach.prems(1) have "\<forall>name pos fn err. (name, pos) \<in> set rest \<and>
      switch_pos kps pos = Some fn \<and> link_Kprobe e name fn = Inl err \<longrightarrow> err = ErrNotExist"
    by (meson list.set_intros(2))
  ultimately show ?case using Attach by simp
next
  case (NotExist name pos fn rest s c s')
  then have "k \<noteq> polls s" by auto
  moreover from NotExist.prems(1) have "\<forall>name pos fn err. (name, pos) \<in> set rest \<and>
      switch_pos kps pos = Some fn \<and> link_Kprobe e name fn = Inl err \<longrightarrow> err = ErrNotExist"
    by (meson list.set_intros(2))
  ultimately show ?case using NotExist by simp
next
  case (Skip name pos rest s c s')
  from Skip.prems(1) have "\<forall>name pos fn err. (name, pos) \<in> set rest \<and>
      switch_pos kps pos = Some fn \<and> link_Kprobe e name fn = Inl err \<longrightarrow> err = ErrNotExist"
    by (meson list.set_intros(2))
  then show ?case using Skip by simp
next
  case (Fatal name pos fn err rest s)
  from Fatal.prems(1) Fatal.hyps have "err = ErrNotExist"
    by (meson list.set_intros(1))
  with Fatal show ?case by simp
qed simp_all

lemma no_reader_in_ERun [simp]: "ENewReader \<notin> ERun ` A"
  by auto

lemma main_cancel_returns:
  assumes st: "startup e (parse_flags args) = Inr (funcs, kps, s0)"
    and nf: "\<forall>name pos fn err. (name, pos) \<in> set funcs \<and> switch_pos kps pos = Some fn \<and>
        link_Kprobe e name fn = Inl err \<longrightarrow> err = ErrNotExist"
    and k: "ctx_Done e k" "k < length (filter (\<lambda>(name, pos). in_range pos) funcs)"
  shows "fst (main e args) = Returned \<and> ECtxDone True \<in> set (trace (snd (main e args))) \<and>
    ENewReader \<notin> set (trace (snd (main e args)))"
proof -
  let ?s1 = "emit (EBarStartNew (length funcs)) ((emit (ELog AttachingKprobes) s0)\<lparr>ignored := 0\<rparr>)"
  have s1: "trace ?s1 = trace s0 @ [ELog AttachingKprobes, EBarStartNew (length funcs)]"
    "polls ?s1 = polls s0" by (simp_all add: emit_def)
  from startup_Inr[OF st] have p0: "polls s0 = 0" by simp
  from startup_quiet(2)[OF st] have q: "ENewReader \<notin> set (trace s0)" by simp
  obtain c s2 where run: "attach_loop e kps funcs ?s1 = (c, s2)"
    by (cases "attach_loop e kps funcs ?s1")
  from attach_loop_returns[OF run nf k(1)] k(2) have c: "c = Return" by (simp add: s1 p0)
  from run c have a: "attach_all e kps funcs s0 = Inl (finish Return s2)"
    by (simp add: attach_all_def Let_def)
  from st a have m: "main e args = finish Return s2" by (simp add: main_def)
  from attach_loop_cancel[OF run] c obtain es0 where
    "trace s2 = trace ?s1 @ es0 @ [ECtxDone True]" "ENewReader \<notin> set (es0 @ [ECtxDone True])"
    by auto
  with q show ?thesis by (simp add: m finish_obs s1)
qed

subsection \<open>The attach loop\<close>

text \<open>C3. When the attach part of \<open>main\<close> completes (no fatal error, no cancellation),
  the number of links attached plus the counter \<open>ignored\<close> is the size of the catalog.
  The counter holds exactly the entries whose position takes the \<open>default\<close> case or
  whose symbol is absent; every entry at a position outside 1 to 5 is among them, and
  the attempts made are for the entries at positions 1 to 5 and no others. The summary
  printed last carries the counter.\<close>

theorem attach_all_accounting:
  assumes "attach_all e kps funcs s = Inr s'" and "kp_handles (deferred s) = []"
  shows "int (length (kp_handles (deferred s'))) + ignored s' = int (length funcs) \<and>
     ignored s' = int (length (filter (entry_ignored e kps) funcs)) \<and>
     (\<forall>name pos. \<not> in_range pos \<longrightarrow> entry_ignored e kps (name, pos)) \<and>
     map fst (attempts (trace s')) =
       map fst (attempts (trace s)) @ map fst (filter (\<lambda>(name, pos). in_range pos) funcs) \<and>
     last (trace s') = EPrintfAttached (ignored s')"
proof -
  let ?s1 = "emit (EBarStartNew (length funcs)) ((emit (ELog AttachingKprobes) s)\<lparr>ignored := 0\<rparr>)"
  obtain c s2 where run: "attach_loop e kps funcs ?s1 = (c, s2)" by (cases "attach_loop e kps funcs ?s1")
  have c: "c = Normal" and s': "s' = emit (EPrintfAttached (ignored s2)) (emit EBarFinish s2)"
    using assms(1) run by (auto simp: attach_all_def Let_def finish_def return_main_def split: completion.splits)
  have s1: "ignored ?s1 = 0" "deferred ?s1 = deferred s" "attempts (trace ?s1) = attempts (trace s)"
    by (simp_all add: emit_def)
  note cnt = attach_loop_count[OF run c, unfolded s1]
  have "length (filter (entry_ignored e kps) funcs) + length (filter (Not \<circ> entry_ignored e kps) funcs) = length funcs"
    using sum_length_filter_compl[of "entry_ignored e kps" funcs] by (simp add: comp_def)
  with cnt assms(2) show ?thesis
    by (simp add: s' entry_ignored_def switch_pos_None)
qed

theorem attach_all_accounting_witness:
  "attach_all env_absent (assign_kprobes KProbePWRUObjects) [(''a'', 1), (''b'', 7), (''c'', 2)]
       (init_state env_absent) =
     Inr \<lparr>trace =
        [ELog AttachingKprobes, EBarStartNew 3, ECtxDone False,
         EKprobe ''a'' (KProbePWRUObjects, KprobeSkb1), EBarIncrement,
         ECtxDone False, EKprobe ''c'' (KProbePWRUObjects, KprobeSkb2),
         EBarIncrement, EBarFinish, EPrintfAttached 2],
        cfgMap = None, deferred = [DkpClose 2], ignored = 2, polls = 2,
        event = [0, 0, 0, 0]\<rparr> \<and>
   kp_handles (deferred (init_state env_absent)) = [] \<and>
   int (length (kp_handles [DkpClose 2])) + 2 = int (length [(''a'', 1::int), (''b'', 7), (''c'', 2)]) \<and>
   (2::int) = int (length (filter (entry_ignored env_absent (assign_kprobes KProbePWRUObjects))
       [(''a'', 1), (''b'', 7), (''c'', 2)]))"
proof -
  have h1: "attach_all env_absent (assign_kprobes KProbePWRUObjects)
       [(''a'', 1), (''b'', 7), (''c'', 2)] (init_state env_absent) =
     Inr \<lparr>trace =
        [ELog AttachingKprobes, EBarStartNew 3, ECtxDone False,
         EKprobe ''a'' (KProbePWRUObjects, KprobeSkb1), EBarIncrement,
         ECtxDone False, EKprobe ''c'' (KProbePWRUObjects, KprobeSkb2),
         EBarIncrement, EBarFinish, EPrintfAttached 2],
        cfgMap = None, deferred = [DkpClose 2], ignored = 2, polls = 2,
        event = [0, 0, 0, 0]\<rparr>"
    by code_simp
  have h2: "kp_handles (deferred (init_state env_absent)) = []"
    by (simp add: init_state_def)
  from attach_all_accounting[OF h1 h2] h1 h2 show ?thesis by simp
qed

text \<open>C4. The attempts that the attach loop makes are, in order, those for the entries of
  the catalog at positions 1 to 5, each with the program field of its position: an
  initial part of that list in every run, and all of it when the loop completes. The
  \<open>switch\<close> maps position \<open>k\<close> from 1 to 5 to the \<open>k\<close>-th program field and selects nothing
  for any other position.\<close>

theorem attach_variant_by_position:
  assumes "attach_loop e (assign_kprobes objs) funcs s = (c, s')"
  shows "(\<exists>n. attempts (trace s') = attempts (trace s) @ take n (expected_attempts objs funcs)) \<and>
     (c = Normal \<longrightarrow> attempts (trace s') = attempts (trace s) @ expected_attempts objs funcs) \<and>
     (\<forall>pos. switch_pos (assign_kprobes objs) pos =
        (if in_range pos then Some (objs, nth_progfield pos) else None)) \<and>
     map nth_progfield [1, 2, 3, 4, 5] =
       [KprobeSkb1, KprobeSkb2, KprobeSkb3, KprobeSkb4, KprobeSkb5]"
proof -
  have "\<forall>pos. switch_pos (assign_kprobes objs) pos =
        (if in_range pos then Some (objs, nth_progfield pos) else None)"
    by (simp add: switch_pos_assign switch_pos_None)
  moreover have "map nth_progfield [1, 2, 3, 4, 5] =
       [KprobeSkb1, KprobeSkb2, KprobeSkb3, KprobeSkb4, KprobeSkb5]"
    by (simp add: nth_progfield_def)
  ultimately show ?thesis using attach_loop_attempts[OF assms] by blast
qed

theorem attach_variant_by_position_witness:
  "attach_loop env0 (assign_kprobes KProbePWRUObjects) [(''a'', 1), (''b'', 7), (''c'', 2)]
       (init_state env0) =
     (Normal, \<lparr>trace =
        [ECtxDone False, EKprobe ''a'' (KProbePWRUObjects, KprobeSkb1), EBarIncrement,
         ECtxDone False, EKprobe ''c'' (KProbePWRUObjects, KprobeSkb2), EBarIncrement],
        cfgMap = None, deferred = [DkpClose 2, DkpClose 1], ignored = 1, polls = 2,
        event = [0, 0, 0, 0]\<rparr>) \<and>
   attempts [ECtxDone False, EKprobe ''a'' (KProbePWRUObjects, KprobeSkb1), EBarIncrement,
         ECtxDone False, EKprobe ''c'' (KProbePWRUObjects, KprobeSkb2), EBarIncrement] =
     expected_attempts KProbePWRUObjects [(''a'', 1), (''b'', 7), (''c'', 2)] \<and>
   expected_attempts KProbePWRUObjects [(''a'', 1), (''b'', 7), (''c'', 2)] =
     [(''a'', (KProbePWRUObjects, KprobeSkb1)), (''c'', (KProbePWRUObjects, KprobeSkb2))]"
proof -
  have h1: "attach_loop env0 (assign_kprobes KProbePWRUObjects) [(''a'', 1), (''b'', 7), (''c'', 2)]
       (init_state env0) =
     (Normal, \<lparr>trace =
        [ECtxDone False, EKprobe ''a'' (KProbePWRUObjects, KprobeSkb1), EBarIncrement,
         ECtxDone False, EKprobe ''c'' (KProbePWRUObjects, KprobeSkb2), EBarIncrement],
        cfgMap = None, deferred = [DkpClose 2, DkpClose 1], ignored = 1, polls = 2,
        event = [0, 0, 0, 0]\<rparr>)"
    by code_simp
  have h2: "expected_attempts KProbePWRUObjects [(''a'', 1), (''b'', 7), (''c'', 2)] =
     [(''a'', (KProbePWRUObjects, KprobeSkb1)), (''c'', (KProbePWRUObjects, KprobeSkb2))]"
    by (simp add: expected_attempts_def in_range_def nth_progfield_def)
  from attach_variant_by_position[OF h1] h1 h2 show ?thesis by (simp add: init_state_def)
qed

text \<open>C5. When the attempt for an entry fails because the symbol is not present, the body
  of the loop completes normally with \<open>ignored\<close> incremented and nothing deferred, and the
  loop goes on with the next entry. When absence is the only way attachment fails, the
  loop never ends in \<open>os.Exit\<close>.\<close>

theorem attach_absent_symbol_ignored:
  assumes "switch_pos kps pos = Some fn" and "\<not> ctx_Done e (polls s)"
    and "link_Kprobe e name fn = Inl ErrNotExist"
  shows "attach_body e kps (name, pos) s =
       (Normal, s\<lparr>polls := polls s + 1,
          trace := trace s @ [ECtxDone False, EKprobe name fn, EBarIncrement],
          ignored := ignored s + 1\<rparr>) \<and>
     attach_loop e kps ((name, pos) # rest) s =
       attach_loop e kps rest
         (s\<lparr>polls := polls s + 1,
            trace := trace s @ [ECtxDone False, EKprobe name fn, EBarIncrement],
            ignored := ignored s + 1\<rparr>) \<and>
     ((\<forall>name fn err. link_Kprobe e name fn = Inl err \<longrightarrow> err = ErrNotExist) \<longrightarrow>
        (\<forall>funcs s0 n. fst (attach_loop e kps funcs s0) \<noteq> OsExit n))"
proof -
  have "(\<forall>name fn err. link_Kprobe e name fn = Inl err \<longrightarrow> err = ErrNotExist) \<longrightarrow>
        (\<forall>funcs s0 n. fst (attach_loop e kps funcs s0) \<noteq> OsExit n)"
  proof (intro impI allI)
    fix funcs s0 n
    assume a: "\<forall>name fn err. link_Kprobe e name fn = Inl err \<longrightarrow> err = ErrNotExist"
    obtain c s1 where r: "attach_loop e kps funcs s0 = (c, s1)"
      by (cases "attach_loop e kps funcs s0")
    from attach_loop_not_fatal[OF r a] r show "fst (attach_loop e kps funcs s0) \<noteq> OsExit n"
      by auto
  qed
  then show ?thesis using assms by (simp add: attach_body_eq)
qed

theorem attach_absent_symbol_ignored_witness:
  "switch_pos (assign_kprobes KProbePWRUObjects) 1 = Some (KProbePWRUObjects, KprobeSkb1) \<and>
   \<not> ctx_Done env_absent (polls (init_state env_absent)) \<and>
   link_Kprobe env_absent ''a'' (KProbePWRUObjects, KprobeSkb1) = Inl ErrNotExist \<and>
   attach_body env_absent (assign_kprobes KProbePWRUObjects) (''a'', 1) (init_state env_absent) =
     (Normal, \<lparr>trace = [ECtxDone False, EKprobe ''a'' (KProbePWRUObjects, KprobeSkb1), EBarIncrement],
        cfgMap = None, deferred = [], ignored = 1, polls = 1, event = [0, 0, 0, 0]\<rparr>)"
proof -
  have h1: "switch_pos (assign_kprobes KProbePWRUObjects) 1 = Some (KProbePWRUObjects, KprobeSkb1)"
    by (simp add: switch_pos_def assign_kprobes_def)
  have h2: "\<not> ctx_Done env_absent (polls (init_state env_absent))"
    by (simp add: env_absent_def env0_def)
  have h3: "link_Kprobe env_absent ''a'' (KProbePWRUObjects, KprobeSkb1) = Inl ErrNotExist"
    by (simp add: env_absent_def)
  have c: "attach_body env_absent (assign_kprobes KProbePWRUObjects) (''a'', 1) (init_state env_absent) =
     (Normal, (init_state env_absent)\<lparr>polls := polls (init_state env_absent) + 1,
          trace := trace (init_state env_absent) @
            [ECtxDone False, EKprobe ''a'' (KProbePWRUObjects, KprobeSkb1), EBarIncrement],
          ignored := ignored (init_state env_absent) + 1\<rparr>)"
    using attach_absent_symbol_ignored[OF h1 h2 h3, where rest = "[]"] by blast
  have e: "(init_state env_absent)\<lparr>polls := polls (init_state env_absent) + 1,
          trace := trace (init_state env_absent) @
            [ECtxDone False, EKprobe ''a'' (KProbePWRUObjects, KprobeSkb1), EBarIncrement],
          ignored := ignored (init_state env_absent) + 1\<rparr> =
      \<lparr>trace = [ECtxDone False, EKprobe ''a'' (KProbePWRUObjects, KprobeSkb1), EBarIncrement],
        cfgMap = None, deferred = [], ignored = 1, polls = 1, event = [0, 0, 0, 0]\<rparr>"
    by (simp add: init_state_def env_absent_def env0_def numeral_eq_Suc)
  from c[unfolded e] h1 h2 h3 show ?thesis by blast
qed

subsection \<open>The event loop\<close>

text \<open>C8. The loss messages that the event loop logs carry, in order, exactly the
  non-zero counts of lost samples of the results it works through, so the logged total
  is the sum of the reported counts. The loop never ends in \<open>os.Exit\<close>. The events it
  renders are those of all valid records it works through, whatever losses were reported
  before them. After a result with lost samples the loop goes on with the next result:
  nothing is read again and nothing is waited for.\<close>

theorem loss_accounting:
  "logged_losses (trace (snd (consume e rs s))) = logged_losses (trace s) @ losses (processed rs) \<and>
   sum_list (map unat (logged_losses (trace (snd (consume e rs s))))) =
     sum_list (map unat (logged_losses (trace s))) +
     sum_list (map (\<lambda>rd. unat (LostSamples (fst rd))) (processed rs)) \<and>
   (\<forall>n. fst (consume e rs s) \<noteq> Exited n) \<and>
   printed (trace (snd (consume e rs s))) = printed (trace s) @ rendered e (processed rs) \<and>
   (\<not> is_closed (r, err) \<and> LostSamples r \<noteq> 0 \<longrightarrow>
      consume e ((r, err) # rest) s =
        consume e rest (emit (ELog (DroppedSamples (LostSamples r))) (after_read err s)))"
  by (simp add: consume_losses consume_printed consume_outcome sum_losses consume_Cons_open
      consume_body_lost)

theorem loss_accounting_witness:
  "\<not> is_closed (lost3, None) \<and> LostSamples lost3 \<noteq> 0 \<and>
   consume env0 [(lost3, None)] (init_state env0) =
     consume env0 [] (emit (ELog (DroppedSamples 3)) (after_read None (init_state env0))) \<and>
   logged_losses (trace (snd (consume env0 (rd_Read env0) (init_state env0)))) = [3] \<and>
   printed (trace (snd (consume env0 (rd_Read env0) (init_state env0)))) =
     [[1, 2, 3, 4], [9, 9, 9, 9]]"
proof -
  have h: "\<not> is_closed (lost3, None)" "LostSamples lost3 \<noteq> 0" "LostSamples lost3 = 3"
    by (simp_all add: is_closed_def lost3_def)
  have p: "processed (rd_Read env0) = take 5 (rd_Read env0)"
    by (simp add: processed_def env0_def is_closed_def perf_IsClosed_def)
  have l: "losses (take 5 (rd_Read env0)) = [3]"
    by (simp add: env0_def losses_def)
  have r: "rendered env0 (take 5 (rd_Read env0)) = [[1, 2, 3, 4], [9, 9, 9, 9]]"
    by (simp add: env0_def rendered_def)
  have i: "trace (init_state env0) = []" by (simp add: init_state_def)
  from loss_accounting[of env0 "rd_Read env0" "init_state env0"]
  have "logged_losses (trace (snd (consume env0 (rd_Read env0) (init_state env0)))) = [3]"
    "printed (trace (snd (consume env0 (rd_Read env0) (init_state env0)))) =
     [[1, 2, 3, 4], [9, 9, 9, 9]]"
    by (simp_all add: p l r i)
  moreover from loss_accounting[of env0 "[]" "init_state env0" lost3 None "[]"] h
  have "consume env0 [(lost3, None)] (init_state env0) =
     consume env0 [] (emit (ELog (DroppedSamples 3)) (after_read None (init_state env0)))"
    by simp
  ultimately show ?thesis using h by simp
qed

text \<open>C9, as stated, fails: a record whose length differs from the size of an event because
  it is longer is rendered, from its leading bytes.\<close>

theorem long_record_rendered:
  "length (RawSample raw5) \<noteq> eventSize env0 \<and>
   printed (trace (snd (consume env0 [(raw5, None)] (init_state env0)))) = [[1, 2, 3, 4]]"
  by (simp add: consume_printed processed_def is_closed_def rendered_def raw5_def env0_def
      init_state_def)

text \<open>C9, amended. A record (without lost samples) that is shorter than an event is logged
  and skipped: nothing is rendered for it and the loop goes on with the next result. A
  record that is at least as long as an event is rendered from its first \<open>eventSize\<close>
  bytes. Over a whole sequence of results, the events rendered are exactly those of the
  records that are long enough, so valid records after a short one are still
  processed.\<close>

theorem short_record_skipped:
  "(\<not> is_closed (r, err) \<and> LostSamples r = 0 \<and> length (RawSample r) < eventSize e \<longrightarrow>
      consume e ((r, err) # rest) s =
        consume e rest
          (emit (ELog (ParsingPerfEvent (if RawSample r = [] then EOF else ErrUnexpectedEOF)))
             (after_read err s)) \<and>
      printed (trace (emit (ELog (ParsingPerfEvent (if RawSample r = [] then EOF else ErrUnexpectedEOF)))
             (after_read err s))) = printed (trace s)) \<and>
   (\<not> is_closed (r, err) \<and> LostSamples r = 0 \<and> eventSize e \<le> length (RawSample r) \<longrightarrow>
      printed (trace (snd (consume_body e (r, err) s))) =
        printed (trace s) @ [take (eventSize e) (RawSample r)]) \<and>
   printed (trace (snd (consume e rs s))) = printed (trace s) @ rendered e (processed rs)"
  by (simp add: consume_printed consume_Cons_open consume_body_short consume_body_print)

theorem short_record_skipped_witness:
  "\<not> is_closed (raw3, None) \<and> LostSamples raw3 = 0 \<and> length (RawSample raw3) < eventSize env0 \<and>
   consume env0 [(raw3, None), (raw5, None)] (init_state env0) =
     consume env0 [(raw5, None)]
       (emit (ELog (ParsingPerfEvent ErrUnexpectedEOF)) (after_read None (init_state env0))) \<and>
   printed (trace (snd (consume env0 [(raw3, None), (raw5, None)] (init_state env0)))) =
     [[1, 2, 3, 4]]"
proof -
  have h: "\<not> is_closed (raw3, None)" "LostSamples raw3 = 0" "length (RawSample raw3) < eventSize env0"
    "RawSample raw3 \<noteq> []"
    by (simp_all add: is_closed_def raw3_def env0_def)
  have p: "processed [(raw3, None), (raw5, None)] = [(raw3, None), (raw5, None)]"
    by (simp add: processed_def is_closed_def)
  have r: "rendered env0 [(raw3, None), (raw5, None)] = [[1, 2, 3, 4]]"
    by (simp add: rendered_def raw3_def raw5_def env0_def)
  have i: "trace (init_state env0) = []" by (simp add: init_state_def)
  note t = short_record_skipped[of raw3 None env0 "[(raw5, None)]" "init_state env0"
      "[(raw3, None), (raw5, None)]"]
  from t h(1-3) have "consume env0 [(raw3, None), (raw5, None)] (init_state env0) =
     consume env0 [(raw5, None)]
       (emit (ELog (ParsingPerfEvent (if RawSample raw3 = [] then EOF else ErrUnexpectedEOF)))
          (after_read None (init_state env0)))"
    by blast
  with h(4) have a: "consume env0 [(raw3, None), (raw5, None)] (init_state env0) =
     consume env0 [(raw5, None)]
       (emit (ELog (ParsingPerfEvent ErrUnexpectedEOF)) (after_read None (init_state env0)))"
    by simp
  from t have "printed (trace (snd (consume env0 [(raw3, None), (raw5, None)] (init_state env0)))) =
     printed (trace (init_state env0)) @ rendered env0 (processed [(raw3, None), (raw5, None)])"
    by blast
  then have b: "printed (trace (snd (consume env0 [(raw3, None), (raw5, None)] (init_state env0)))) =
     [[1, 2, 3, 4]]"
    by (simp add: p r i)
  from h(1-3) a b show ?thesis by blast
qed

text \<open>C10. The \<open>break\<close> of the cancellation check after rendering ends the \<open>select\<close>
  statement only: when the poll observes cancellation the body of the loop completes
  normally and the loop goes on with the next result. Whatever the polls observe, the
  loop returns exactly when some result carries the closed error, and otherwise stays
  in \<open>rd.Read()\<close>; it performs one read for every result before the first closed one and
  one more.\<close>

theorem select_break_keeps_reading:
  "select_stmt Break = Normal \<and>
   (\<not> is_closed (r, err) \<and> LostSamples r = 0 \<and> eventSize e \<le> length (RawSample r) \<and>
      ctx_Done e (polls s) \<longrightarrow>
        fst (consume_body e (r, err) s) = Normal \<and>
        consume e ((r, err) # rest) s = consume e rest (snd (consume_body e (r, err) s))) \<and>
   fst (consume e rs s) = (if list_ex is_closed rs then Returned else Blocked) \<and>
   count_list (trace (snd (consume e rs s))) ERead =
     count_list (trace s) ERead + Suc (length (processed rs))"
  by (simp add: consume_outcome consume_reads consume_Cons_open consume_body_print
      select_stmt_def)

theorem select_break_keeps_reading_witness:
  "\<not> is_closed (raw5, None) \<and> LostSamples raw5 = 0 \<and> eventSize env_cancelled \<le> length (RawSample raw5) \<and>
   ctx_Done env_cancelled (polls (init_state env_cancelled)) \<and>
   fst (consume_body env_cancelled (raw5, None) (init_state env_cancelled)) = Normal \<and>
   fst (consume env_cancelled (rd_Read env_cancelled) (init_state env_cancelled)) = Returned \<and>
   count_list (trace (snd (consume env_cancelled (rd_Read env_cancelled) (init_state env_cancelled))))
     ERead = 6 \<and>
   fst (consume env_cancelled (take 5 (rd_Read env_cancelled)) (init_state env_cancelled)) = Blocked"
proof -
  have h: "\<not> is_closed (raw5, None)" "LostSamples raw5 = 0"
    "eventSize env_cancelled \<le> length (RawSample raw5)"
    "ctx_Done env_cancelled (polls (init_state env_cancelled))"
    by (simp_all add: is_closed_def raw5_def env_cancelled_def env0_def)
  have c: "list_ex is_closed (rd_Read env_cancelled)"
    "\<not> list_ex is_closed (take 5 (rd_Read env_cancelled))"
    by (simp_all add: env_cancelled_def env0_def is_closed_def perf_IsClosed_def)
  have p: "length (processed (rd_Read env_cancelled)) = 5"
    by (simp add: processed_def env_cancelled_def env0_def is_closed_def perf_IsClosed_def)
  have i: "trace (init_state env_cancelled) = []" by (simp add: init_state_def)
  from select_break_keeps_reading[of raw5 None env_cancelled "init_state env_cancelled" "[]"
      "rd_Read env_cancelled"]
    select_break_keeps_reading[of raw5 None env_cancelled "init_state env_cancelled" "[]"
      "take 5 (rd_Read env_cancelled)"] h c
  show ?thesis by (simp add: p i)
qed

subsection \<open>The whole run\<close>

text \<open>C1, on a run where it fails. The catalog is \<open>a\<close> at position 1, \<open>b\<close> at position 7
  and \<open>c\<close> at position 2; attaching to \<open>a\<close> succeeds with link 1 and attaching to \<open>c\<close>
  fails with an error that is not \<open>os.ErrNotExist\<close>. The run ends in \<open>os.Exit(1)\<close> after
  the second attempt; link 1 was attached and its \<open>Close\<close> is still on the stack of
  deferred calls: it was never run.\<close>

theorem fatal_attach_skips_release:
  "fst (main env_fatal args0) = Exited 1 \<and>
   attempts (trace (snd (main env_fatal args0))) =
     [(''a'', (KProbePWRUWithoutOutputSKBObjects, KprobeSkb1)),
      (''c'', (KProbePWRUWithoutOutputSKBObjects, KprobeSkb2))] \<and>
   attached_links env_fatal (attempts (trace (snd (main env_fatal args0)))) = [1] \<and>
   closed_links (trace (snd (main env_fatal args0))) = [] \<and>
   deferred (snd (main env_fatal args0)) =
     [DkpClose 1, DobjsClose KProbePWRUWithoutOutputSKBObjects, Dstop]"
  by code_simp

text \<open>C2. In every run of \<open>main\<close>, every attachment attempt comes directly after a poll of
  \<open>ctx.Done()\<close> that saw no cancellation, so there is a poll between any two attempts. If
  the poll number \<open>k\<close> (counting from 0) observes cancellation, at most \<open>k\<close> attempts are
  made in the whole run: cancellation raised while an attempt is under way lets that
  attempt finish and no other. When \<open>main\<close> returns, the closes of links that were run
  are the links attached, latest first: each link is closed as often as it was attached.

  A poll that observes cancellation during attachment (before any reader is made) ends
  the run by \<open>return\<close>: \<open>main\<close> returns, that poll is followed by nothing but the deferred
  calls, and these close exactly the links attached before it. Such a poll is reached
  whenever the start-up succeeds, no attachment of the catalog fails with an error other
  than \<open>os.ErrNotExist\<close>, and cancellation is up at a poll number below the number of
  entries at positions 1 to 5.\<close>

theorem cancellation_polled_between_attempts:
  "(\<forall>i<length (trace (snd (main e args))). is_attempt (trace (snd (main e args)) ! i) \<longrightarrow>
      0 < i \<and> trace (snd (main e args)) ! (i - 1) = ECtxDone False) \<and>
   (\<forall>k. ctx_Done e k \<longrightarrow> length (attempts (trace (snd (main e args)))) \<le> k) \<and>
   (fst (main e args) = Returned \<longrightarrow>
      closed_links (trace (snd (main e args))) =
        rev (attached_links e (attempts (trace (snd (main e args))))) \<and>
      (\<forall>kp. count_list (closed_links (trace (snd (main e args)))) kp =
         count_list (attached_links e (attempts (trace (snd (main e args))))) kp)) \<and>
   (ECtxDone True \<in> set (trace (snd (main e args))) \<and>
    ENewReader \<notin> set (trace (snd (main e args))) \<longrightarrow>
      fst (main e args) = Returned \<and>
      (\<exists>before ds. trace (snd (main e args)) = before @ ECtxDone True # map ERun ds \<and>
         ECtxDone True \<notin> set before \<and>
         kp_handles ds = rev (attached_links e (attempts before))) \<and>
      closed_links (trace (snd (main e args))) =
        rev (attached_links e (attempts (trace (snd (main e args)))))) \<and>
   (startup e (parse_flags args) = Inr (funcs, kps, s0) \<and>
    (\<forall>name pos fn err. (name, pos) \<in> set funcs \<and> switch_pos kps pos = Some fn \<and>
        link_Kprobe e name fn = Inl err \<longrightarrow> err = ErrNotExist) \<and>
    ctx_Done e k \<and> k < length (filter (\<lambda>(name, pos). in_range pos) funcs) \<longrightarrow>
      fst (main e args) = Returned \<and>
      ECtxDone True \<in> set (trace (snd (main e args))) \<and>
      ENewReader \<notin> set (trace (snd (main e args))) \<and>
      length (attempts (trace (snd (main e args)))) \<le> k \<and>
      closed_links (trace (snd (main e args))) =
        rev (attached_links e (attempts (trace (snd (main e args))))))"
proof -
  have "guarded (trace (snd (main e args)))"
    using main_shape[of e args]
  proof (elim disjE exE conjE)
    assume "attempts (trace (snd (main e args))) = []"
    then show ?thesis by (rule guarded_no_attempts)
  next
    fix pre cfg es
    assume t: "trace (snd (main e args)) = pre @ ECfgMapUpdate cfg # es"
      and "attempts pre = []" "guarded es"
    then have "guarded pre" "guarded [ECfgMapUpdate cfg]" "guarded es"
      by (simp_all add: guarded_no_attempts guarded_single)
    then have "guarded (pre @ [ECfgMapUpdate cfg] @ es)"
      by (intro guarded_append)
    with t show ?thesis by simp
  qed
  then have polled: "\<forall>i<length (trace (snd (main e args))). is_attempt (trace (snd (main e args)) ! i) \<longrightarrow>
      0 < i \<and> trace (snd (main e args)) ! (i - 1) = ECtxDone False"
    by (simp add: guarded_def)
  have bound: "\<forall>k. ctx_Done e k \<longrightarrow> length (attempts (trace (snd (main e args)))) \<le> k"
    by (simp add: main_cancel_bound)
  have release: "fst (main e args) = Returned \<longrightarrow>
      closed_links (trace (snd (main e args))) =
        rev (attached_links e (attempts (trace (snd (main e args))))) \<and>
      (\<forall>kp. count_list (closed_links (trace (snd (main e args)))) kp =
         count_list (attached_links e (attempts (trace (snd (main e args))))) kp)"
    using main_release[of e args] by simp
  have observed: "ECtxDone True \<in> set (trace (snd (main e args))) \<and>
    ENewReader \<notin> set (trace (snd (main e args))) \<longrightarrow>
      fst (main e args) = Returned \<and>
      (\<exists>before ds. trace (snd (main e args)) = before @ ECtxDone True # map ERun ds \<and>
         ECtxDone True \<notin> set before \<and>
         kp_handles ds = rev (attached_links e (attempts before))) \<and>
      closed_links (trace (snd (main e args))) =
        rev (attached_links e (attempts (trace (snd (main e args)))))"
    using main_cancelled[of e args] main_release[of e args] by blast
  have raised: "startup e (parse_flags args) = Inr (funcs, kps, s0) \<and>
    (\<forall>name pos fn err. (name, pos) \<in> set funcs \<and> switch_pos kps pos = Some fn \<and>
        link_Kprobe e name fn = Inl err \<longrightarrow> err = ErrNotExist) \<and>
    ctx_Done e k \<and> k < length (filter (\<lambda>(name, pos). in_range pos) funcs) \<longrightarrow>
      fst (main e args) = Returned \<and>
      ECtxDone True \<in> set (trace (snd (main e args))) \<and>
      ENewReader \<notin> set (trace (snd (main e args))) \<and>
      length (attempts (trace (snd (main e args)))) \<le> k \<and>
      closed_links (trace (snd (main e args))) =
        rev (attached_links e (attempts (trace (snd (main e args)))))"
  proof (intro impI, elim conjE)
    assume st: "startup e (parse_flags args) = Inr (funcs, kps, s0)"
      and nf: "\<forall>name pos fn err. (name, pos) \<in> set funcs \<and> switch_pos kps pos = Some fn \<and>
        link_Kprobe e name fn = Inl err \<longrightarrow> err = ErrNotExist"
      and k: "ctx_Done e k" "k < length (filter (\<lambda>(name, pos). in_range pos) funcs)"
    from main_cancel_returns[OF st nf k] main_release[of e args] main_cancel_bound[OF k(1), of args]
    show "fst (main e args) = Returned \<and>
      ECtxDone True \<in> set (trace (snd (main e args))) \<and>
      ENewReader \<notin> set (trace (snd (main e args))) \<and>
      length (attempts (trace (snd (main e args)))) \<le> k \<and>
      closed_links (trace (snd (main e args))) =
        rev (attached_links e (attempts (trace (snd (main e args)))))"
      by blast
  qed
  from polled bound release observed raised show ?thesis by blast
qed

theorem cancellation_polled_between_attempts_witness:
  "startup env_cancel1 (parse_flags args0) =
     Inr ([(''a'', 1), (''b'', 7), (''c'', 2)], assign_kprobes KProbePWRUWithoutOutputSKBObjects,
       \<lparr>trace = [ESetrlimit RLIMIT_NOFILE, ESetrlimit RLIMIT_MEMLOCK, ENotifyContext, EGetFuncs,
          EGetAddrs, ELoadObjects KProbePWRUWithoutOutputSKBObjects, ECfgMapUpdate []],
        cfgMap = Some [], deferred = [DobjsClose KProbePWRUWithoutOutputSKBObjects, Dstop],
        ignored = 0, polls = 0, event = [0, 0, 0, 0]\<rparr>) \<and>
   (\<forall>name fn. \<exists>kp. link_Kprobe env_cancel1 name fn = Inr kp) \<and>
   ctx_Done env_cancel1 1 \<and>
   1 < length (filter (\<lambda>(name, pos). in_range pos) [(''a'', 1::int), (''b'', 7), (''c'', 2)]) \<and>
   fst (main env_cancel1 args0) = Returned \<and>
   ECtxDone True \<in> set (trace (snd (main env_cancel1 args0))) \<and>
   ENewReader \<notin> set (trace (snd (main env_cancel1 args0))) \<and>
   length (attempts (trace (snd (main env_cancel1 args0)))) \<le> 1 \<and>
   attached_links env_cancel1 (attempts (trace (snd (main env_cancel1 args0)))) = [1] \<and>
   closed_links (trace (snd (main env_cancel1 args0))) = [1] \<and>
   10 < length (trace (snd (main env_cancel1 args0))) \<and>
   is_attempt (trace (snd (main env_cancel1 args0)) ! 10) \<and>
   trace (snd (main env_cancel1 args0)) ! (10 - 1) = ECtxDone False"
proof -
  have st: "startup env_cancel1 (parse_flags args0) =
     Inr ([(''a'', 1), (''b'', 7), (''c'', 2)], assign_kprobes KProbePWRUWithoutOutputSKBObjects,
       \<lparr>trace = [ESetrlimit RLIMIT_NOFILE, ESetrlimit RLIMIT_MEMLOCK, ENotifyContext, EGetFuncs,
          EGetAddrs, ELoadObjects KProbePWRUWithoutOutputSKBObjects, ECfgMapUpdate []],
        cfgMap = Some [], deferred = [DobjsClose KProbePWRUWithoutOutputSKBObjects, Dstop],
        ignored = 0, polls = 0, event = [0, 0, 0, 0]\<rparr>)"
    by code_simp
  have ok: "\<forall>name fn. \<exists>kp. link_Kprobe env_cancel1 name fn = Inr kp"
    by (simp add: env_cancel1_def env0_def)
  then have nf: "\<forall>name pos fn err. (name, pos) \<in> set [(''a'', 1), (''b'', 7), (''c'', 2)] \<and>
      switch_pos (assign_kprobes KProbePWRUWithoutOutputSKBObjects) pos = Some fn \<and>
      link_Kprobe env_cancel1 name fn = Inl err \<longrightarrow> err = ErrNotExist"
    by (metis Inl_Inr_False)
  have k: "ctx_Done env_cancel1 1"
    "1 < length (filter (\<lambda>(name, pos). in_range pos) [(''a'', 1::int), (''b'', 7), (''c'', 2)])"
    by (simp_all add: env_cancel1_def in_range_def)
  have h3: "attached_links env_cancel1 (attempts (trace (snd (main env_cancel1 args0)))) = [1]"
    by code_simp
  have h4: "10 < length (trace (snd (main env_cancel1 args0)))" by code_simp
  have h5: "is_attempt (trace (snd (main env_cancel1 args0)) ! 10)" by code_simp
  note t = cancellation_polled_between_attempts[of env_cancel1 args0
      "[(''a'', 1), (''b'', 7), (''c'', 2)]" "assign_kprobes KProbePWRUWithoutOutputSKBObjects"
      "\<lparr>trace = [ESetrlimit RLIMIT_NOFILE, ESetrlimit RLIMIT_MEMLOCK, ENotifyContext, EGetFuncs,
          EGetAddrs, ELoadObjects KProbePWRUWithoutOutputSKBObjects, ECfgMapUpdate []],
        cfgMap = Some [], deferred = [DobjsClose KProbePWRUWithoutOutputSKBObjects, Dstop],
        ignored = 0, polls = 0, event = [0, 0, 0, 0]\<rparr>" 1]
  from t st nf k have r: "fst (main env_cancel1 args0) = Returned"
    "ECtxDone True \<in> set (trace (snd (main env_cancel1 args0)))"
    "ENewReader \<notin> set (trace (snd (main env_cancel1 args0)))"
    "length (attempts (trace (snd (main env_cancel1 args0)))) \<le> 1"
    "closed_links (trace (snd (main env_cancel1 args0))) =
      rev (attached_links env_cancel1 (attempts (trace (snd (main env_cancel1 args0)))))"
    by blast+
  from r(5) have b: "closed_links (trace (snd (main env_cancel1 args0))) = [1]"
    by (simp add: h3)
  from t h4 h5 have c: "trace (snd (main env_cancel1 args0)) ! (10 - 1) = ECtxDone False"
    by blast
  from st ok k r(1-4) h3 b h4 h5 c show ?thesis by blast
qed

text \<open>C7. In every run of \<open>main\<close> the configuration slot is written at most once, and
  every attachment attempt comes after a write of the slot with the configuration made
  from the flags of the run.\<close>

theorem config_written_before_first_attach:
  "length (filter is_cfg_update (trace (snd (main e args)))) \<le> 1 \<and>
   (\<forall>i<length (trace (snd (main e args))). is_attempt (trace (snd (main e args)) ! i) \<longrightarrow>
      (\<exists>j<i. \<exists>cfg. trace (snd (main e args)) ! j = ECfgMapUpdate cfg \<and>
         encodeFilter e (parse_flags args) = Inr cfg))"
  using main_shape[of e args]
proof (elim disjE exE conjE)
  assume "attempts (trace (snd (main e args))) = []"
    and "filter is_cfg_update (trace (snd (main e args))) = []"
  then show ?thesis by (simp add: attempts_Nil_iff)
next
  fix pre cfg es
  assume t: "trace (snd (main e args)) = pre @ ECfgMapUpdate cfg # es"
    and pre: "attempts pre = []" "filter is_cfg_update pre = []"
    and es: "filter is_cfg_update es = []"
    and cfg: "encodeFilter e (parse_flags args) = Inr cfg"
  have "length (filter is_cfg_update (trace (snd (main e args)))) \<le> 1"
    using pre es by (simp add: t)
  moreover have "\<exists>j<i. \<exists>cfg. trace (snd (main e args)) ! j = ECfgMapUpdate cfg \<and>
         encodeFilter e (parse_flags args) = Inr cfg"
    if "i < length (trace (snd (main e args)))" "is_attempt (trace (snd (main e args)) ! i)" for i
  proof -
    from that have "length pre < i"
      unfolding t using first_attempt_after[OF pre(1), of "ECfgMapUpdate cfg" i es] by simp
    moreover have "trace (snd (main e args)) ! length pre = ECfgMapUpdate cfg"
      by (simp add: t)
    ultimately show ?thesis using cfg by blast
  qed
  ultimately show ?thesis by blast
qed

theorem config_written_before_first_attach_witness:
  "10 < length (trace (snd (main env_cancel1 args0))) \<and>
   is_attempt (trace (snd (main env_cancel1 args0)) ! 10) \<and>
   (\<exists>j<10. \<exists>cfg. trace (snd (main env_cancel1 args0)) ! j = ECfgMapUpdate cfg \<and>
      encodeFilter env_cancel1 (parse_flags args0) = Inr cfg)"
proof -
  have h1: "10 < length (trace (snd (main env_cancel1 args0)))" by code_simp
  have h2: "is_attempt (trace (snd (main env_cancel1 args0)) ! 10)" by code_simp
  from config_written_before_first_attach[of env_cancel1 args0] h1 h2
  have "\<exists>j<10. \<exists>cfg. trace (snd (main env_cancel1 args0)) ! j = ECfgMapUpdate cfg \<and>
      encodeFilter env_cancel1 (parse_flags args0) = Inr cfg"
    by blast
  with h1 h2 show ?thesis by blast
qed

subsection \<open>The flags\<close>

text \<open>C6, as stated, fails: a run without \<open>--filter-mark\<close> and a run with \<open>--filter-mark 0\<close>
  have the same flags, and so are the same run.\<close>

theorem unset_mark_same_as_zero:
  "parse_flags args0 = parse_flags (args0\<lparr>arg_filter_mark := Some 0\<rparr>) \<and>
   main env0 args0 = main env0 (args0\<lparr>arg_filter_mark := Some 0\<rparr>)"
  by (simp add: main_def parse_flags_def flag_Int_def args0_def)

text \<open>C6, amended. Leaving a filter flag unset gives it its zero default (0 for the mark,
  the empty string for the others), which is what giving that value on the command line
  does: the flags are the same. For the mark, the run with the flag unset is the run with
  mark 0.\<close>

theorem unset_flag_is_zero_default:
  "parse_flags (args\<lparr>arg_filter_mark := None\<rparr>) = parse_flags (args\<lparr>arg_filter_mark := Some 0\<rparr>) \<and>
   parse_flags (args\<lparr>arg_filter_proto := None\<rparr>) = parse_flags (args\<lparr>arg_filter_proto := Some []\<rparr>) \<and>
   parse_flags (args\<lparr>arg_filter_src_ip := None\<rparr>) = parse_flags (args\<lparr>arg_filter_src_ip := Some []\<rparr>) \<and>
   parse_flags (args\<lparr>arg_filter_dst_ip := None\<rparr>) = parse_flags (args\<lparr>arg_filter_dst_ip := Some []\<rparr>) \<and>
   parse_flags (args\<lparr>arg_filter_src_port := None\<rparr>) =
     parse_flags (args\<lparr>arg_filter_src_port := Some []\<rparr>) \<and>
   parse_flags (args\<lparr>arg_filter_dst_port := None\<rparr>) =
     parse_flags (args\<lparr>arg_filter_dst_port := Some []\<rparr>) \<and>
   FilterMark (parse_flags (args\<lparr>arg_filter_mark := None\<rparr>)) = 0 \<and>
   main e (args\<lparr>arg_filter_mark := None\<rparr>) = main e (args\<lparr>arg_filter_mark := Some 0\<rparr>)"
  by (simp add: main_def parse_flags_def flag_Int_def flag_String_def)

end
